theory Spec2Isabelle
  imports Complex_Main "HOL-Library.Word"
begin

section \<open>Shared types\<close>

text \<open>
  Every error value the two source files create, plus the two error kinds of
  \<^verbatim>\<open>strconv.NumError\<close> that \<^verbatim>\<open>Int64Array.Scan\<close> passes through, and an opaque
  error of the executor.
\<close>

datatype error =
    ScanSourceNotBytes
  | AdditionalData
  | ExpectingBrace nat
  | ErrSyntax
  | ErrRange
  | MissingCursorColumn
  | ExecutionError nat

text \<open>
  A Go \<^verbatim>\<open>interface{}\<close> holding a driver value: the nil interface, a byte slice, or a
  value of some other dynamic type. A byte is a \<^typ>\<open>char\<close>, a byte slice or a Go string a
  \<^typ>\<open>string\<close>.
\<close>

datatype driver_value = VNil | VBytes string | VOther

text \<open>A call either returns or panics.\<close>

datatype 'a go_result = Return 'a | Panic

section \<open>Array codec (postgresql/custom_types.go)\<close>

subsection \<open>StringArray.Scan\<close>

datatype scan_state =
  stateInit | stateOpenBracket | stateOpenQuote | stateLiteral | stateEscape | stateStop

text \<open>
  The local variables of the loop. \<^verbatim>\<open>buffer\<close> is a byte slice that may be nil
  (\<open>None\<close>), and the code tests it against nil.
\<close>

record scanner =
  state :: scan_state
  buffer :: "string option"
  results :: "string list"

text \<open>\<^verbatim>\<open>string(buffer)\<close>: a nil slice converts to the empty string.\<close>

definition string_of :: "string option \<Rightarrow> string" where
  "string_of b = (case b of None \<Rightarrow> [] | Some s \<Rightarrow> s)"

text \<open>\<^verbatim>\<open>append(buffer, c)\<close>: appending to a nil slice allocates.\<close>

definition append_byte :: "string option \<Rightarrow> char \<Rightarrow> string option" where
  "append_byte b c = Some (string_of b @ [c])"

text \<open>
  One iteration of the loop body at index \<open>i\<close> on byte \<open>c\<close>: the \<^verbatim>\<open>switch state\<close>,
  case by case. \<^verbatim>\<open>continue\<close> and the \<^verbatim>\<open>break\<close> out of the inner switch both go on
  with the next byte.
\<close>

definition scan_step :: "nat \<Rightarrow> scanner \<Rightarrow> char \<Rightarrow> error + scanner" where
  "scan_step i s c =
    (case state s of
       stateStop \<Rightarrow> Inl AdditionalData
     | stateInit \<Rightarrow>
         (if c = CHR ''{'' then Inr (s\<lparr>buffer := None, state := stateOpenBracket\<rparr>)
          else Inl (ExpectingBrace i))
     | stateOpenBracket \<Rightarrow>
         (if c = CHR ''}'' then
            Inr (s\<lparr>results := (case buffer s of None \<Rightarrow> results s
                                | Some b \<Rightarrow> results s @ [b]),
                   state := stateStop\<rparr>)
          else if c = CHR '' '' then Inr s
          else if c = CHR '','' then
            Inr (s\<lparr>results := results s @ [string_of (buffer s)], buffer := Some []\<rparr>)
          else if c = CHR 0x22 then
            Inr (s\<lparr>state := stateOpenQuote, buffer := Some []\<rparr>)
          else Inr (s\<lparr>state := stateLiteral, buffer := Some [c]\<rparr>))
     | stateLiteral \<Rightarrow>
         (if c = CHR ''}'' then
            Inr (s\<lparr>results := results s @ [string_of (buffer s)], state := stateStop\<rparr>)
          else if c = CHR '','' then
            Inr (s\<lparr>results := results s @ [string_of (buffer s)], buffer := Some [],
                   state := stateOpenBracket\<rparr>)
          else Inr (s\<lparr>buffer := append_byte (buffer s) c\<rparr>))
     | stateEscape \<Rightarrow>
         Inr (s\<lparr>buffer := append_byte (buffer s) c, state := stateOpenQuote\<rparr>)
     | stateOpenQuote \<Rightarrow>
         (if c = CHR 0x5C then Inr (s\<lparr>state := stateEscape\<rparr>)
          else if c = CHR 0x22 then Inr (s\<lparr>state := stateOpenBracket\<rparr>)
          else Inr (s\<lparr>buffer := append_byte (buffer s) c\<rparr>)))"

text \<open>
  \<^verbatim>\<open>for i := 1; i < len(b); i++\<close> over the bytes from index \<open>i\<close> on; an error
  returns from the function at once.
\<close>

fun scan_loop :: "nat \<Rightarrow> scanner \<Rightarrow> string \<Rightarrow> error + scanner" where
  "scan_loop i s [] = Inr s"
| "scan_loop i s (c # cs) =
     (case scan_step i s c of Inl e \<Rightarrow> Inl e | Inr s' \<Rightarrow> scan_loop (Suc i) s' cs)"

definition scan_start :: scanner where
  "scan_start = \<lparr>state = stateOpenBracket, buffer = None, results = []\<rparr>"

text \<open>
  The method takes the receiver \<open>a\<close> (nil is \<open>None\<close>) and the source, and returns the
  receiver after the call with the returned error (nil is \<open>None\<close>). The loop starts at
  index 1, so the byte at index 0 is never read.
\<close>

definition StringArray_Scan ::
  "string list option \<Rightarrow> driver_value \<Rightarrow> string list option \<times> error option" where
  "StringArray_Scan a src =
    (case src of
       VNil \<Rightarrow> (None, None)
     | VOther \<Rightarrow> (a, Some ScanSourceNotBytes)
     | VBytes b \<Rightarrow>
         if length b = 0 then (None, None)
         else (case scan_loop 1 scan_start (drop 1 b) of
                 Inl e \<Rightarrow> (a, Some e)
               | Inr s \<Rightarrow> (Some (results s), None)))"

subsection \<open>StringArray.Value\<close>

text \<open>
  \<^verbatim>\<open>strings.IndexAny(v, chars)\<close> for ASCII \<open>chars\<close>: the index of the first byte of
  \<open>v\<close> that is one of \<open>chars\<close>; \<open>None\<close> stands for the result \<open>-1\<close>.
\<close>

fun IndexAny :: "string \<Rightarrow> string \<Rightarrow> nat option" where
  "IndexAny [] chars = None"
| "IndexAny (c # cs) chars =
     (if c \<in> set chars then Some 0 else map_option Suc (IndexAny cs chars))"

text \<open>The \<^verbatim>\<open>for\<close> loop of \<^verbatim>\<open>appendArrayQuotedString\<close>, on the output \<open>b\<close> and the rest \<open>v\<close>.\<close>

function quote_loop :: "string \<Rightarrow> string \<Rightarrow> string" where
  "quote_loop b v =
    (case IndexAny v [CHR 0x22, CHR 0x5C] of
       None \<Rightarrow> b @ v
     | Some i \<Rightarrow>
         quote_loop ((if i > 0 then b @ take i v else b) @ [CHR 0x5C, v ! i])
                    (drop (Suc i) v))"
  by pat_completeness auto
termination
proof (relation "measure (\<lambda>(b, v). length v)")
  show "wf (measure (\<lambda>(b, v). length v))" by simp
next
  fix b v :: string and i :: nat
  assume found: "IndexAny v [CHR 0x22, CHR 0x5C] = Some i"
  have "IndexAny w cs = Some j \<Longrightarrow> j < length w" for w cs :: string and j
    by (induction w arbitrary: j) (auto split: if_splits)
  from this [OF found]
  show "(((if 0 < i then b @ take i v else b) @ [CHR 0x5C, v ! i], drop (Suc i) v), b, v)
          \<in> measure (\<lambda>(b, v). length v)"
    by simp
qed

declare quote_loop.simps [simp del]

definition appendArrayQuotedString :: "string \<Rightarrow> string \<Rightarrow> string" where
  "appendArrayQuotedString b v = quote_loop (b @ [CHR 0x22]) v @ [CHR 0x22]"

text \<open>\<^verbatim>\<open>for i := 1; i < n; i++\<close> of \<^verbatim>\<open>Value\<close>, over the elements from index 1 on.\<close>

fun string_value_loop :: "string \<Rightarrow> string list \<Rightarrow> string" where
  "string_value_loop b [] = b"
| "string_value_loop b (x # xs) =
     string_value_loop (appendArrayQuotedString (b @ [CHR '','']) x) xs"

definition StringArray_Value :: "string list option \<Rightarrow> driver_value \<times> error option" where
  "StringArray_Value a =
    (case a of
       None \<Rightarrow> (VNil, None)
     | Some [] \<Rightarrow> (VBytes [CHR ''{'', CHR ''}''], None)
     | Some (x # xs) \<Rightarrow>
         (VBytes (string_value_loop (appendArrayQuotedString [CHR ''{''] x) xs @ [CHR ''}'']),
          None))"

subsection \<open>Int64Array\<close>

text \<open>An \<^verbatim>\<open>int64\<close> is a 64-bit word read in two's complement (\<^const>\<open>sint\<close>).\<close>

type_synonym int64 = "64 word"

text \<open>
  The Go standard library's \<^verbatim>\<open>strconv.AppendInt(b, i, 10)\<close>: the minimal decimal digits
  of \<open>i\<close>, after a minus sign when \<open>i\<close> is negative.
\<close>

fun decimal :: "nat \<Rightarrow> string" where
  "decimal n =
     (if n < 10 then [char_of (48 + n)]
      else decimal (n div 10) @ [char_of (48 + n mod 10)])"

declare decimal.simps [simp del]

definition AppendInt :: "string \<Rightarrow> int64 \<Rightarrow> string" where
  "AppendInt b i =
     b @ (if sint i < 0 then CHR ''-'' # decimal (nat (- sint i)) else decimal (nat (sint i)))"

text \<open>
  The Go standard library's \<^verbatim>\<open>strconv.ParseUint(s, 10, 64)\<close>. Its accumulator is a
  \<^verbatim>\<open>uint64\<close>: the arithmetic is written on naturals modulo \<open>2 ^ 64\<close>. In base 10 every
  byte that is not a decimal digit is a syntax error (a letter is a digit value of 10 or
  more, an underscore is accepted in base 0 only).
\<close>

definition maxUint64 :: nat where
  "maxUint64 = 2 ^ 64 - 1"

fun ParseUint_loop :: "nat \<Rightarrow> string \<Rightarrow> error + nat" where
  "ParseUint_loop n [] = Inr n"
| "ParseUint_loop n (c # cs) =
     (if 48 \<le> (of_char c :: nat) \<and> (of_char c :: nat) \<le> 57 then
        (if n \<ge> maxUint64 div 10 + 1 then Inl ErrRange
         else
           let n10 = (n * 10) mod 2 ^ 64;
               n1 = (n10 + (of_char c - 48)) mod 2 ^ 64
           in if n1 < n10 \<or> n1 > maxUint64 then Inl ErrRange else ParseUint_loop n1 cs)
      else Inl ErrSyntax)"

definition ParseUint :: "string \<Rightarrow> error + nat" where
  "ParseUint s = (if s = [] then Inl ErrSyntax else ParseUint_loop 0 s)"

text \<open>
  \<^verbatim>\<open>strconv.ParseInt(s, 10, 64)\<close>: an optional sign, then \<^verbatim>\<open>ParseUint\<close>; a range error
  of \<^verbatim>\<open>ParseUint\<close> comes with the value \<^verbatim>\<open>maxUint64\<close> and is reported by the range
  checks below.
\<close>

definition ParseInt :: "string \<Rightarrow> error + int64" where
  "ParseInt s0 =
    (if s0 = [] then Inl ErrSyntax
     else
       let neg = (hd s0 = CHR ''-'');
           s = (if hd s0 = CHR ''+'' \<or> hd s0 = CHR ''-'' then tl s0 else s0)
       in case ParseUint s of
            Inl ErrSyntax \<Rightarrow> Inl ErrSyntax
          | r \<Rightarrow>
              let un = (case r of Inr n \<Rightarrow> n | Inl e \<Rightarrow> maxUint64)
              in if \<not> neg \<and> un \<ge> 2 ^ 63 then Inl ErrRange
                 else if neg \<and> un > 2 ^ 63 then Inl ErrRange
                 else Inr (if neg then - word_of_nat un else word_of_nat un))"

text \<open>\<^verbatim>\<open>strings.Split(s, sep)\<close> for a one-byte separator.\<close>

fun Split :: "string \<Rightarrow> char \<Rightarrow> string list" where
  "Split [] sep = [[]]"
| "Split (c # cs) sep =
     (if c = sep then [] # Split cs sep
      else (case Split cs sep of [] \<Rightarrow> [[c]] | p # ps \<Rightarrow> (c # p) # ps))"

text \<open>\<^verbatim>\<open>for _, n := range parts\<close>: the first token that does not parse ends the call.\<close>

fun parse_parts :: "int64 list \<Rightarrow> string list \<Rightarrow> error + int64 list" where
  "parse_parts res [] = Inr res"
| "parse_parts res (n # ns) =
     (case ParseInt n of
        Inl err \<Rightarrow> Inl err
      | Inr i \<Rightarrow> parse_parts (res @ [i]) ns)"

text \<open>
  \<^verbatim>\<open>string(b)[1 : len(b)-1]\<close> panics (slice bounds out of range) when \<open>len(b) - 1 < 1\<close>,
  that is on a source of one byte.
\<close>

definition Int64Array_Scan ::
  "int64 list option \<Rightarrow> driver_value \<Rightarrow> (int64 list option \<times> error option) go_result" where
  "Int64Array_Scan a src =
    (case src of
       VNil \<Rightarrow> Return (None, None)
     | VOther \<Rightarrow> Return (a, Some ScanSourceNotBytes)
     | VBytes b \<Rightarrow>
         if length b = 0 then Return (None, None)
         else if int (length b) - 1 < 1 then Panic
         else
           let s = take (length b - 2) (drop 1 b)
           in if s \<noteq> [] then
                (case parse_parts [] (Split s (CHR '','')) of
                   Inl err \<Rightarrow> Return (a, Some err)
                 | Inr res \<Rightarrow> Return (Some res, None))
              else Return (Some [], None))"

fun int64_value_loop :: "string \<Rightarrow> int64 list \<Rightarrow> string" where
  "int64_value_loop b [] = b"
| "int64_value_loop b (x # xs) = int64_value_loop (AppendInt (b @ [CHR '','']) x) xs"

definition Int64Array_Value :: "int64 list option \<Rightarrow> driver_value \<times> error option" where
  "Int64Array_Value a =
    (case a of
       None \<Rightarrow> (VNil, None)
     | Some [] \<Rightarrow> (VBytes [CHR ''{'', CHR ''}''], None)
     | Some (x # xs) \<Rightarrow>
         (VBytes (int64_value_loop (AppendInt [CHR ''{''] x) xs @ [CHR ''}'']), None))"

subsection \<open>Notions used to state the codec's properties\<close>

text \<open>
  What \<^const>\<open>quote_loop\<close> writes for a string: every double quote and every backslash
  preceded by a backslash.
\<close>

fun escape :: "string \<Rightarrow> string" where
  "escape [] = []"
| "escape (c # cs) =
     (if c = CHR 0x22 \<or> c = CHR 0x5C then CHR 0x5C # c # escape cs else c # escape cs)"

definition is_digit :: "char \<Rightarrow> bool" where
  "is_digit c = (48 \<le> (of_char c :: nat) \<and> (of_char c :: nat) \<le> 57)"

text \<open>
  The decoder as the spec words it (section 4.3), kept apart from the code above: a scan
  over the states await-element, inside-quoted-literal, inside-bare-literal, escape-pending
  and stopped, one byte at a time. Only the state is followed here, not the buffer.
  In await-element \<open>}\<close> ends the array, a space is skipped, \<open>,\<close> stays, a double quote
  begins a quoted literal and any other byte begins a bare literal; in a bare literal
  \<open>}\<close> ends the array and \<open>,\<close> returns to await-element; in a quoted literal a backslash
  enters escape-pending and a double quote returns to await-element; escape-pending takes
  the byte literally and returns to the quoted literal.
\<close>

datatype literal_state =
  AwaitElement | InsideQuotedLiteral | InsideBareLiteral | EscapePending | Stopped

fun spec_step :: "literal_state \<Rightarrow> char \<Rightarrow> literal_state" where
  "spec_step AwaitElement c =
     (if c = CHR ''}'' then Stopped
      else if c = CHR '' '' then AwaitElement
      else if c = CHR '','' then AwaitElement
      else if c = CHR 0x22 then InsideQuotedLiteral
      else InsideBareLiteral)"
| "spec_step InsideBareLiteral c =
     (if c = CHR ''}'' then Stopped
      else if c = CHR '','' then AwaitElement
      else InsideBareLiteral)"
| "spec_step InsideQuotedLiteral c =
     (if c = CHR 0x5C then EscapePending
      else if c = CHR 0x22 then AwaitElement
      else InsideQuotedLiteral)"
| "spec_step EscapePending c = InsideQuotedLiteral"
| "spec_step Stopped c = Stopped"

text \<open>
  The position of the closing bracket in the bytes \<open>cs\<close> read from the state \<open>st\<close>: the
  first byte on which the scan of the spec stops, if there is one. \<open>trailing_data cs\<close>: the
  bytes \<open>cs\<close> that follow the opening byte have a closing bracket and at least one byte
  after it.
\<close>

fun closing_bracket :: "literal_state \<Rightarrow> string \<Rightarrow> nat option" where
  "closing_bracket st [] = None"
| "closing_bracket st (c # cs) =
     (if spec_step st c = Stopped then Some 0
      else map_option Suc (closing_bracket (spec_step st c) cs))"

definition trailing_data :: "string \<Rightarrow> bool" where
  "trailing_data cs =
     (case closing_bracket AwaitElement cs of None \<Rightarrow> False | Some k \<Rightarrow> Suc k < length cs)"

text \<open>The state of the spec that a state constant of the code stands for.\<close>

fun spec_state :: "scan_state \<Rightarrow> literal_state" where
  "spec_state stateInit = Stopped"
| "spec_state stateOpenBracket = AwaitElement"
| "spec_state stateOpenQuote = InsideQuotedLiteral"
| "spec_state stateLiteral = InsideBareLiteral"
| "spec_state stateEscape = EscapePending"
| "spec_state stateStop = Stopped"

section \<open>Paginator (sqlbuilder)\<close>

subsection \<open>Values and the Selector\<close>

text \<open>
  A Go \<^verbatim>\<open>int\<close> is taken at 64 bits (\<^const>\<open>sint\<close> reads it): sums and products wrap.
\<close>

type_synonym go_int = "64 word"

text \<open>An \<^verbatim>\<open>interface{}\<close> holding a cursor value; \<open>NilValue\<close> is the nil interface.\<close>

datatype go_value = NilValue | IntValue go_int | StringValue string

text \<open>\<^verbatim>\<open>db.Cond\<close>, a Go map; a nil map is \<open>None\<close> where the code tests for it.\<close>

type_synonym Cond = "string \<rightharpoonup> go_value"

text \<open>
  Modelled from the spec: the Selector, the query builder of package sqlbuilder that the
  paginator composes against, is not among the source files. The spec (section 6) lists
  the operations the paginator consumes: set the limit, set the offset, order by a named
  column, filter by a condition, replace the projection, and the terminal operations that
  execute. A selector is modelled as the record of the builder calls made on it, innermost
  first: \<open>Source k\<close> is a selector the caller supplies,
  \<open>SetColumns c s\<close> is \<^verbatim>\<open>s.setColumns(db.Raw(c))\<close>, and \<open>SelectFrom cols alias s\<close> is
  \<^verbatim>\<open>s.SQLBuilder().Select(cols).From(db.Raw(alias, s))\<close>, the query \<open>s\<close> wrapped as a
  subquery.
\<close>

datatype selector =
    Source nat
  | Limit go_int selector
  | Offset go_int selector
  | OrderBy string selector
  | Where Cond selector
  | SetColumns string selector
  | SelectFrom string string selector

text \<open>
  The ordering convention of \<^verbatim>\<open>OrderBy\<close> that the flip in \<^verbatim>\<open>buildWithCursor\<close> relies on:
  a column name with a leading \<open>-\<close> sorts descending, any other name ascending.
\<close>

definition HasPrefix :: "string \<Rightarrow> string \<Rightarrow> bool" where
  "HasPrefix s prefix = (take (length prefix) s = prefix)"

definition descending :: "string \<Rightarrow> bool" where
  "descending orderBy = HasPrefix orderBy ''-''"

text \<open>
  The terminal operations of the Selector that the paginator passes its resolved query to.
\<close>

datatype terminal =
    TAll | TOne | TIterator | TIteratorContext | TString | TArguments
  | TQuery | TQueryContext | TQueryRow | TQueryRowContext | TPrepare | TPrepareContext

subsection \<open>paginatorQuery and the frames\<close>

text \<open>\<^verbatim>\<open>sel\<close> is an interface value: \<open>None\<close> is the nil interface.\<close>

record paginatorQuery =
  sel :: "selector option"
  cursorColumn :: string
  cursorValue :: go_value
  cursorCond :: "Cond option"
  cursorReverseOrder :: bool
  pageSize :: go_int
  pageNumber :: go_int

text \<open>
  A frame function \<^verbatim>\<open>func(*paginatorQuery) error\<close>: it returns the query it was given,
  updated, or an error, or it panics.
\<close>

type_synonym mutation = "paginatorQuery \<Rightarrow> (error + paginatorQuery) go_result"

text \<open>\<^verbatim>\<open>pq.sel = pq.sel.M(...)\<close>: a method call on a nil interface panics.\<close>

definition with_sel ::
  "paginatorQuery \<Rightarrow> (selector \<Rightarrow> selector) \<Rightarrow> paginatorQuery go_result" where
  "with_sel pq m = (case sel pq of None \<Rightarrow> Panic | Some s \<Rightarrow> Return (pq\<lparr>sel := Some (m s)\<rparr>))"

definition bind_result :: "'a go_result \<Rightarrow> ('a \<Rightarrow> 'b go_result) \<Rightarrow> 'b go_result" where
  "bind_result r f = (case r of Panic \<Rightarrow> Panic | Return x \<Rightarrow> f x)"

definition ok :: "paginatorQuery go_result \<Rightarrow> (error + paginatorQuery) go_result" where
  "ok r = bind_result r (\<lambda>pq. Return (Inr pq))"

text \<open>
  \<^verbatim>\<open>type paginator struct { fn; prev *paginator }\<close>: a frame holds its function (nil is
  \<open>None\<close>) and the frame before it (a nil pointer is \<open>None\<close>).
\<close>

datatype paginator = Paginator (fn: "mutation option") (prev: "paginator option")

definition frame :: "paginator \<Rightarrow> mutation \<Rightarrow> paginator" where
  "frame pag f = Paginator (Some f) (Some pag)"

text \<open>The function of the first frame of \<^verbatim>\<open>newPaginator(sel, pageSize)\<close>.\<close>

definition newPaginator_fn :: "selector option \<Rightarrow> go_int \<Rightarrow> mutation" where
  "newPaginator_fn sel0 pageSize0 pq =
    (let pageSize1 = (if sint pageSize0 < 0 then - 1 else pageSize0);
         pq1 = pq\<lparr>pageSize := pageSize1\<rparr>
     in case sel0 of
          None \<Rightarrow> Panic
        | Some s \<Rightarrow> Return (Inr (pq1\<lparr>sel := Some (Limit (pageSize pq1) s)\<rparr>)))"

definition Page_fn :: "go_int \<Rightarrow> mutation" where
  "Page_fn pageNumber0 pq =
    (let pageNumber1 = (if sint pageNumber0 < 0 then - 1 else pageNumber0);
         pq1 = pq\<lparr>pageNumber := pageNumber1\<rparr>
     in if sint (pageNumber pq1) < 0 then ok (with_sel pq1 (Offset (- 1)))
        else ok (with_sel pq1 (Offset (pageSize pq1 * pageNumber pq1))))"

definition Cursor_fn :: "string \<Rightarrow> mutation" where
  "Cursor_fn column pq = Return (Inr (pq\<lparr>cursorColumn := column, cursorValue := NilValue\<rparr>))"

definition NextPage_fn :: "go_value \<Rightarrow> mutation" where
  "NextPage_fn v pq =
    (if cursorValue pq \<noteq> NilValue \<and> cursorColumn pq = [] then Return (Inl MissingCursorColumn)
     else Return (Inr (pq\<lparr>cursorValue := v, cursorReverseOrder := False,
                           cursorCond := Some [cursorColumn pq @ '' >'' \<mapsto> v]\<rparr>)))"

definition PrevPage_fn :: "go_value \<Rightarrow> mutation" where
  "PrevPage_fn v pq =
    (if cursorValue pq \<noteq> NilValue \<and> cursorColumn pq = [] then Return (Inl MissingCursorColumn)
     else Return (Inr (pq\<lparr>cursorValue := v, cursorReverseOrder := True,
                           cursorCond := Some [cursorColumn pq @ '' <'' \<mapsto> v]\<rparr>)))"

definition Page :: "paginator \<Rightarrow> go_int \<Rightarrow> paginator" where
  "Page pag pageNumber0 = frame pag (Page_fn pageNumber0)"

definition Cursor :: "paginator \<Rightarrow> string \<Rightarrow> paginator" where
  "Cursor pag column = frame pag (Cursor_fn column)"

definition NextPage :: "paginator \<Rightarrow> go_value \<Rightarrow> paginator" where
  "NextPage pag v = frame pag (NextPage_fn v)"

definition PrevPage :: "paginator \<Rightarrow> go_value \<Rightarrow> paginator" where
  "PrevPage pag v = frame pag (PrevPage_fn v)"

text \<open>\<^verbatim>\<open>pag := &paginator{}\<close>, then the first frame, then \<^verbatim>\<open>Page(0)\<close>.\<close>

definition newPaginator :: "selector option \<Rightarrow> go_int \<Rightarrow> paginator" where
  "newPaginator sel0 pageSize0 =
     Page (frame (Paginator None None) (newPaginator_fn sel0 pageSize0)) 0"

subsection \<open>Resolution\<close>

text \<open>The methods \<^verbatim>\<open>Prev\<close>, \<^verbatim>\<open>Fn\<close> and \<^verbatim>\<open>Base\<close> through which a chain is replayed.\<close>

definition Prev :: "paginator option \<Rightarrow> paginator option" where
  "Prev pag = (case pag of None \<Rightarrow> None | Some p \<Rightarrow> prev p)"

definition Fn :: "paginator \<Rightarrow> mutation" where
  "Fn pag pq = (case fn pag of None \<Rightarrow> Return (Inr pq) | Some f \<Rightarrow> f pq)"

definition Base :: paginatorQuery where
  "Base = \<lparr>sel = None, cursorColumn = [], cursorValue = NilValue, cursorCond = None,
           cursorReverseOrder = False, pageSize = 0, pageNumber = 0\<rparr>"

text \<open>
  Modelled from the spec: \<^verbatim>\<open>immutable.FastForward\<close> is not among the source files. The
  spec (section 4.1): resolution starts from an empty base state and walks the chain from
  the oldest frame to the newest, applying each mutation in that order; the first mutation
  to fail aborts resolution, later frames are not applied, and that error is returned.
\<close>

fun frames_of :: "paginator \<Rightarrow> paginator list" where
  "frames_of (Paginator f p) = (case p of None \<Rightarrow> [] | Some q \<Rightarrow> frames_of q) @ [Paginator f p]"

fun apply_frames :: "paginatorQuery \<Rightarrow> paginator list \<Rightarrow> (error + paginatorQuery) go_result" where
  "apply_frames pq [] = Return (Inr pq)"
| "apply_frames pq (f # fs) =
     (case Fn f pq of
        Return (Inr pq') \<Rightarrow> apply_frames pq' fs
      | Return (Inl err) \<Rightarrow> Return (Inl err)
      | Panic \<Rightarrow> Panic)"

definition FastForward :: "paginator \<Rightarrow> (error + paginatorQuery) go_result" where
  "FastForward pag = apply_frames Base (frames_of pag)"

definition build :: "paginator \<Rightarrow> (error + paginatorQuery) go_result" where
  "build pag = FastForward pag"

text \<open>
  \<^verbatim>\<open>buildWithCursor\<close>: the three steps after the replay, each a call on \<^verbatim>\<open>pqq.sel\<close>.
\<close>

definition cursor_order :: "paginatorQuery \<Rightarrow> paginatorQuery go_result" where
  "cursor_order pqq =
    (if cursorColumn pqq \<noteq> [] then
       (let orderBy = cursorColumn pqq;
            orderBy1 = (if cursorReverseOrder pqq then
                          (if HasPrefix orderBy ''-'' then drop 1 orderBy else ''-'' @ orderBy)
                        else orderBy)
        in with_sel pqq (OrderBy orderBy1))
     else Return pqq)"

definition cursor_filter :: "paginatorQuery \<Rightarrow> paginatorQuery go_result" where
  "cursor_filter pqq =
    (case cursorCond pqq of
       None \<Rightarrow> Return pqq
     | Some cond \<Rightarrow> with_sel pqq (\<lambda>s. Offset 0 (Where cond s)))"

definition cursor_wrap :: "paginatorQuery \<Rightarrow> paginatorQuery go_result" where
  "cursor_wrap pqq =
    (if cursorReverseOrder pqq then
       with_sel pqq (\<lambda>s. OrderBy (cursorColumn pqq) (SelectFrom ''_q0.*'' ''? AS _q0'' s))
     else Return pqq)"

definition buildWithCursor :: "paginator \<Rightarrow> (error + paginatorQuery) go_result" where
  "buildWithCursor pag =
    (case FastForward pag of
       Panic \<Rightarrow> Panic
     | Return (Inl err) \<Rightarrow> Return (Inl err)
     | Return (Inr pqq) \<Rightarrow>
         ok (bind_result (bind_result (cursor_order pqq) cursor_filter) cursor_wrap))"

subsection \<open>The fetch family\<close>

text \<open>
  What a terminal method of the paginator does, as far as this file decides it: it passes
  the call on to the resolved Selector (the result is then the Selector's), or it returns
  an error, or an iterator that holds the error (\<^verbatim>\<open>&iterator{nil, err}\<close>), or plain nil,
  or it panics with the error's message, or it panics at run time (nil Selector).
\<close>

datatype fetch_outcome =
    Delegates terminal selector
  | ReturnsError error
  | ReturnsErrorIterator error
  | ReturnsNil
  | PanicsWith error
  | RuntimePanic

text \<open>\<^verbatim>\<open>return pq.sel.M(...)\<close> for the terminal method \<open>M\<close>.\<close>

definition delegate :: "terminal \<Rightarrow> paginatorQuery \<Rightarrow> fetch_outcome" where
  "delegate t pq = (case sel pq of None \<Rightarrow> RuntimePanic | Some s \<Rightarrow> Delegates t s)"

definition All_pag :: "paginator \<Rightarrow> fetch_outcome" where
  "All_pag pag =
    (case buildWithCursor pag of
       Panic \<Rightarrow> RuntimePanic
     | Return (Inl err) \<Rightarrow> ReturnsError err
     | Return (Inr pq) \<Rightarrow> delegate TAll pq)"

definition One_pag :: "paginator \<Rightarrow> fetch_outcome" where
  "One_pag pag =
    (case buildWithCursor pag of
       Panic \<Rightarrow> RuntimePanic
     | Return (Inl err) \<Rightarrow> ReturnsError err
     | Return (Inr pq) \<Rightarrow> delegate TOne pq)"

definition Iterator :: "paginator \<Rightarrow> fetch_outcome" where
  "Iterator pag =
    (case buildWithCursor pag of
       Panic \<Rightarrow> RuntimePanic
     | Return (Inl err) \<Rightarrow> ReturnsErrorIterator err
     | Return (Inr pq) \<Rightarrow> delegate TIterator pq)"

definition IteratorContext :: "paginator \<Rightarrow> fetch_outcome" where
  "IteratorContext pag =
    (case buildWithCursor pag of
       Panic \<Rightarrow> RuntimePanic
     | Return (Inl err) \<Rightarrow> ReturnsErrorIterator err
     | Return (Inr pq) \<Rightarrow> delegate TIteratorContext pq)"

definition String_pag :: "paginator \<Rightarrow> fetch_outcome" where
  "String_pag pag =
    (case buildWithCursor pag of
       Panic \<Rightarrow> RuntimePanic
     | Return (Inl err) \<Rightarrow> PanicsWith err
     | Return (Inr pq) \<Rightarrow> delegate TString pq)"

definition Arguments :: "paginator \<Rightarrow> fetch_outcome" where
  "Arguments pag =
    (case buildWithCursor pag of
       Panic \<Rightarrow> RuntimePanic
     | Return (Inl err) \<Rightarrow> ReturnsNil
     | Return (Inr pq) \<Rightarrow> delegate TArguments pq)"

definition Query :: "paginator \<Rightarrow> fetch_outcome" where
  "Query pag =
    (case buildWithCursor pag of
       Panic \<Rightarrow> RuntimePanic
     | Return (Inl err) \<Rightarrow> ReturnsError err
     | Return (Inr pq) \<Rightarrow> delegate TQuery pq)"

definition QueryContext :: "paginator \<Rightarrow> fetch_outcome" where
  "QueryContext pag =
    (case buildWithCursor pag of
       Panic \<Rightarrow> RuntimePanic
     | Return (Inl err) \<Rightarrow> ReturnsError err
     | Return (Inr pq) \<Rightarrow> delegate TQueryContext pq)"

definition QueryRow :: "paginator \<Rightarrow> fetch_outcome" where
  "QueryRow pag =
    (case buildWithCursor pag of
       Panic \<Rightarrow> RuntimePanic
     | Return (Inl err) \<Rightarrow> ReturnsError err
     | Return (Inr pq) \<Rightarrow> delegate TQueryRow pq)"

definition QueryRowContext :: "paginator \<Rightarrow> fetch_outcome" where
  "QueryRowContext pag =
    (case buildWithCursor pag of
       Panic \<Rightarrow> RuntimePanic
     | Return (Inl err) \<Rightarrow> ReturnsError err
     | Return (Inr pq) \<Rightarrow> delegate TQueryRowContext pq)"

definition Prepare :: "paginator \<Rightarrow> fetch_outcome" where
  "Prepare pag =
    (case buildWithCursor pag of
       Panic \<Rightarrow> RuntimePanic
     | Return (Inl err) \<Rightarrow> ReturnsError err
     | Return (Inr pq) \<Rightarrow> delegate TPrepare pq)"

definition PrepareContext :: "paginator \<Rightarrow> fetch_outcome" where
  "PrepareContext pag =
    (case buildWithCursor pag of
       Panic \<Rightarrow> RuntimePanic
     | Return (Inl err) \<Rightarrow> ReturnsError err
     | Return (Inr pq) \<Rightarrow> delegate TPrepareContext pq)"

text \<open>The method of the paginator that ends in the terminal operation \<open>t\<close>.\<close>

fun fetch :: "terminal \<Rightarrow> paginator \<Rightarrow> fetch_outcome" where
  "fetch TAll = All_pag"
| "fetch TOne = One_pag"
| "fetch TIterator = Iterator"
| "fetch TIteratorContext = IteratorContext"
| "fetch TString = String_pag"
| "fetch TArguments = Arguments"
| "fetch TQuery = Query"
| "fetch TQueryContext = QueryContext"
| "fetch TQueryRow = QueryRow"
| "fetch TQueryRowContext = QueryRowContext"
| "fetch TPrepare = Prepare"
| "fetch TPrepareContext = PrepareContext"

text \<open>
  How the paginator tells its caller about a resolution error \<open>err\<close> in the method that
  ends in \<open>t\<close>, when it does.
\<close>

definition reports :: "terminal \<Rightarrow> error \<Rightarrow> fetch_outcome" where
  "reports t err =
    (if t = TString then PanicsWith err
     else if t = TIterator \<or> t = TIteratorContext then ReturnsErrorIterator err
     else ReturnsError err)"

subsection \<open>Reading a resolved selector\<close>

text \<open>
  The offset a selector carries: the argument of the last \<^verbatim>\<open>Offset\<close> call made on the
  query (a wrapped subquery keeps its own).
\<close>

fun offset_of :: "selector \<Rightarrow> go_int option" where
  "offset_of (Source k) = None"
| "offset_of (Limit n s) = offset_of s"
| "offset_of (Offset n s) = Some n"
| "offset_of (OrderBy c s) = offset_of s"
| "offset_of (Where cond s) = offset_of s"
| "offset_of (SetColumns c s) = offset_of s"
| "offset_of (SelectFrom cols alias s) = None"

text \<open>The flip of \<^verbatim>\<open>buildWithCursor\<close> on an order term.\<close>

definition flip_order :: "string \<Rightarrow> string" where
  "flip_order orderBy = (if HasPrefix orderBy ''-'' then drop 1 orderBy else ''-'' @ orderBy)"

subsection \<open>Frames in the heap\<close>













subsection \<open>Counting rows and pages\<close>












section \<open>Properties of the array codec\<close>

subsection \<open>The scanner\<close>

lemma scan_step_index:
  "state s \<noteq> stateInit \<Longrightarrow> scan_step i s c = scan_step j s c"
  by (simp add: scan_step_def split: scan_state.splits)

lemma scan_step_not_init:
  "state s \<noteq> stateInit \<Longrightarrow> scan_step i s c = Inr s' \<Longrightarrow> state s' \<noteq> stateInit"
  by (auto simp: scan_step_def split: scan_state.splits if_splits)

lemma scan_loop_index:
  "state s \<noteq> stateInit \<Longrightarrow> scan_loop i s cs = scan_loop j s cs"
proof (induction cs arbitrary: i j s)
  case Nil
  show ?case by simp
next
  case (Cons c cs)
  have eq: "scan_step i s c = scan_step j s c"
    using Cons.prems by (rule scan_step_index)
  show ?case
  proof (cases "scan_step j s c")
    case (Inl e)
    with eq show ?thesis by simp
  next
    case (Inr s')
    then have "state s' \<noteq> stateInit"
      using Cons.prems scan_step_not_init by blast
    then have "scan_loop (Suc i) s' cs = scan_loop (Suc j) s' cs"
      by (rule Cons.IH)
    with eq Inr show ?thesis by simp
  qed
qed

lemma scan_loop_append:
  "scan_loop i s (xs @ ys) =
     (case scan_loop i s xs of Inl e \<Rightarrow> Inl e | Inr s' \<Rightarrow> scan_loop (i + length xs) s' ys)"
  by (induction xs arbitrary: i s) (auto split: sum.splits)

lemma escape_no_special:
  "IndexAny v [CHR 0x22, CHR 0x5C] = None \<Longrightarrow> escape v = v"
  by (induction v) (auto split: if_splits)

lemma escape_special:
  "IndexAny v [CHR 0x22, CHR 0x5C] = Some i \<Longrightarrow>
     escape v = take i v @ [CHR 0x5C, v ! i] @ escape (drop (Suc i) v)"
  by (induction v arbitrary: i) (auto split: if_splits)

lemma quote_loop_escape: "quote_loop b v = b @ escape v"
proof (induction b v rule: quote_loop.induct)
  case (1 b v)
  show ?case
  proof (cases "IndexAny v [CHR 0x22, CHR 0x5C]")
    case None
    then show ?thesis by (simp add: quote_loop.simps [of b v] escape_no_special)
  next
    case (Some i)
    from "1" [OF Some] Some show ?thesis
      by (simp add: quote_loop.simps [of b v] escape_special)
  qed
qed

lemma appendArrayQuotedString_escape:
  "appendArrayQuotedString b v = b @ CHR 0x22 # escape v @ [CHR 0x22]"
  by (simp add: appendArrayQuotedString_def quote_loop_escape)

lemma scan_quoted_body:
  "scan_loop i \<lparr>state = stateOpenQuote, buffer = Some buf, results = r\<rparr> (escape v @ rest) =
   scan_loop j \<lparr>state = stateOpenQuote, buffer = Some (buf @ v), results = r\<rparr> rest"
proof (induction v arbitrary: i buf)
  case Nil
  show ?case by (simp add: scan_loop_index [of _ i _ j])
next
  case (Cons c v)
  show ?case
    by (simp add: scan_step_def append_byte_def string_of_def Cons.IH)
qed

lemma scan_quoted_element:
  "scan_loop i \<lparr>state = stateOpenBracket, buffer = b, results = r\<rparr>
     (CHR 0x22 # escape v @ CHR 0x22 # rest) =
   scan_loop j \<lparr>state = stateOpenBracket, buffer = Some v, results = r\<rparr> rest"
  by (simp add: scan_step_def scan_quoted_body [where j = "Suc j" and rest = "CHR 0x22 # rest"]
        scan_loop_index [of _ "Suc (Suc j)" _ j])

lemma scan_step_error:
  "state s \<noteq> stateInit \<Longrightarrow> scan_step i s c = Inl e \<Longrightarrow> e = AdditionalData \<and> state s = stateStop"
  by (auto simp: scan_step_def split: scan_state.splits if_splits)

lemma scan_loop_error:
  "state s \<noteq> stateInit \<Longrightarrow> scan_loop i s cs = Inl e \<Longrightarrow>
     e = AdditionalData \<and>
     (\<exists>p c rest s'. cs = p @ c # rest \<and> scan_loop i s p = Inr s' \<and> state s' = stateStop)"
proof (induction cs arbitrary: i s)
  case Nil
  then show ?case by simp
next
  case (Cons c cs)
  show ?case
  proof (cases "scan_step i s c")
    case (Inl e')
    with Cons.prems have "e = AdditionalData \<and> state s = stateStop"
      using scan_step_error [of s i c e'] by simp
    then show ?thesis by (intro conjI exI [of _ "[]"] exI [of _ c] exI [of _ cs] exI [of _ s]) simp_all
  next
    case (Inr s1)
    then have ni: "state s1 \<noteq> stateInit"
      using Cons.prems(1) scan_step_not_init by blast
    from Inr Cons.prems(2) have "scan_loop (Suc i) s1 cs = Inl e" by simp
    from Cons.IH [OF ni this] obtain p c' rest s' where
      e: "e = AdditionalData" and cs: "cs = p @ c' # rest"
      and run: "scan_loop (Suc i) s1 p = Inr s'" and st: "state s' = stateStop"
      by blast
    have "c # cs = (c # p) @ c' # rest" using cs by simp
    moreover have "scan_loop i s (c # p) = Inr s'" using Inr run by simp
    ultimately show ?thesis using e st by blast
  qed
qed

lemma scan_loop_stopped:
  "scan_loop i s p = Inr s' \<Longrightarrow> state s' = stateStop \<Longrightarrow>
     scan_loop i s (p @ c # rest) = Inl AdditionalData"
  by (simp add: scan_loop_append scan_step_def)

lemma scan_start_not_init: "state scan_start \<noteq> stateInit"
  by (simp add: scan_start_def)

lemma StringArray_Scan_first_byte:
  "StringArray_Scan a (VBytes (c0 # cs)) = StringArray_Scan a (VBytes (c1 # cs))"
  by (simp add: StringArray_Scan_def)


lemma scan_step_refines:
  "state s \<noteq> stateInit \<Longrightarrow> state s \<noteq> stateStop \<Longrightarrow>
     \<exists>s'. scan_step i s c = Inr s' \<and> state s' \<noteq> stateInit \<and>
          spec_state (state s') = spec_step (spec_state (state s)) c"
  by (cases "state s") (simp_all add: scan_step_def)

lemma spec_state_Stopped:
  "st \<noteq> stateInit \<Longrightarrow> (spec_state st = Stopped) = (st = stateStop)"
  by (cases st) simp_all

lemma scan_loop_stop_state:
  "state s = stateStop \<Longrightarrow> scan_loop i s cs = (if cs = [] then Inr s else Inl AdditionalData)"
  by (cases cs) (simp_all add: scan_step_def)

lemma scan_loop_fails_iff:
  "state s \<noteq> stateInit \<Longrightarrow> state s \<noteq> stateStop \<Longrightarrow>
     (\<exists>e. scan_loop i s cs = Inl e) \<longleftrightarrow>
     (\<exists>k. closing_bracket (spec_state (state s)) cs = Some k \<and> Suc k < length cs)"
proof (induction cs arbitrary: i s)
  case Nil
  show ?case by simp
next
  case (Cons c cs)
  from scan_step_refines [OF Cons.prems, of i c] obtain s' where
    step: "scan_step i s c = Inr s'" and ni: "state s' \<noteq> stateInit"
    and st: "spec_state (state s') = spec_step (spec_state (state s)) c"
    by blast
  have loop: "scan_loop i s (c # cs) = scan_loop (Suc i) s' cs"
    using step by simp
  show ?case
  proof (cases "state s' = stateStop")
    case True
    then have stopped: "spec_step (spec_state (state s)) c = Stopped"
      using st by simp
    have "(\<exists>e. scan_loop (Suc i) s' cs = Inl e) \<longleftrightarrow> cs \<noteq> []"
      by (simp add: scan_loop_stop_state [OF True])
    moreover have "(\<exists>k. closing_bracket (spec_state (state s)) (c # cs) = Some k \<and>
                     Suc k < length (c # cs)) \<longleftrightarrow> cs \<noteq> []"
      using stopped by simp
    ultimately show ?thesis unfolding loop by simp
  next
    case False
    then have ns: "spec_step (spec_state (state s)) c \<noteq> Stopped"
      using st ni spec_state_Stopped [of "state s'"] by simp
    have ih: "(\<exists>e. scan_loop (Suc i) s' cs = Inl e) \<longleftrightarrow>
        (\<exists>k. closing_bracket (spec_step (spec_state (state s)) c) cs = Some k \<and> Suc k < length cs)"
      using Cons.IH [OF ni False, of "Suc i"] unfolding st .
    have "(\<exists>k. closing_bracket (spec_state (state s)) (c # cs) = Some k \<and>
             Suc k < length (c # cs)) \<longleftrightarrow>
          (\<exists>k. closing_bracket (spec_step (spec_state (state s)) c) cs = Some k \<and> Suc k < length cs)"
      using ns by auto
    with ih show ?thesis unfolding loop by simp
  qed
qed

lemma StringArray_Scan_fails_iff:
  "(\<exists>e. snd (StringArray_Scan a (VBytes (c0 # cs))) = Some e) = trailing_data cs"
proof -
  have s0: "state scan_start \<noteq> stateInit" "state scan_start \<noteq> stateStop"
    by (simp_all add: scan_start_def)
  have s1: "spec_state (state scan_start) = AwaitElement"
    by (simp add: scan_start_def)
  have "(\<exists>e. scan_loop 1 scan_start cs = Inl e) \<longleftrightarrow>
        (\<exists>k. closing_bracket AwaitElement cs = Some k \<and> Suc k < length cs)"
    using scan_loop_fails_iff [OF s0, of 1 cs] unfolding s1 .
  also have "\<dots> \<longleftrightarrow> trailing_data cs"
    by (cases "closing_bracket AwaitElement cs") (simp_all add: trailing_data_def)
  finally have main: "(\<exists>e. scan_loop 1 scan_start cs = Inl e) \<longleftrightarrow> trailing_data cs" .
  have "(\<exists>e. snd (StringArray_Scan a (VBytes (c0 # cs))) = Some e) \<longleftrightarrow>
        (\<exists>e. scan_loop 1 scan_start cs = Inl e)"
    by (cases "scan_loop 1 scan_start cs") (simp_all add: StringArray_Scan_def)
  with main show ?thesis by simp
qed

lemma StringArray_Scan_error_value:
  "snd (StringArray_Scan a (VBytes b)) = Some e \<Longrightarrow>
     e = AdditionalData \<and> fst (StringArray_Scan a (VBytes b)) = a"
proof -
  assume a: "snd (StringArray_Scan a (VBytes b)) = Some e"
  then have ne: "b \<noteq> []" by (auto simp: StringArray_Scan_def)
  from a ne have l: "scan_loop 1 scan_start (drop 1 b) = Inl e"
    by (cases "scan_loop 1 scan_start (drop 1 b)") (simp_all add: StringArray_Scan_def)
  from scan_loop_error [OF scan_start_not_init l] have "e = AdditionalData" by simp
  moreover from l ne have "fst (StringArray_Scan a (VBytes b)) = a"
    by (simp add: StringArray_Scan_def)
  ultimately show ?thesis by simp
qed

lemma no_bracket_no_close:
  "st \<noteq> Stopped \<Longrightarrow> CHR ''}'' \<notin> set cs \<Longrightarrow> closing_bracket st cs = None"
proof (induction cs arbitrary: st)
  case Nil
  show ?case by simp
next
  case (Cons c cs)
  then have "spec_step st c \<noteq> Stopped" by (cases st) auto
  with Cons show ?case by simp
qed

lemma unquoted_close:
  "st = AwaitElement \<or> st = InsideBareLiteral \<Longrightarrow> CHR 0x22 \<notin> set cs \<Longrightarrow>
     (\<exists>k. closing_bracket st cs = Some k \<and> Suc k < length cs) \<longleftrightarrow> CHR ''}'' \<in> set (butlast cs)"
proof (induction cs arbitrary: st)
  case Nil
  show ?case by simp
next
  case (Cons c cs)
  show ?case
  proof (cases "c = CHR ''}''")
    case True
    with Cons.prems(1) have "spec_step st c = Stopped" by auto
    with True show ?thesis by auto
  next
    case False
    with Cons.prems have nxt: "spec_step st c = AwaitElement \<or> spec_step st c = InsideBareLiteral"
      by (auto split: if_splits)
    then have ns: "spec_step st c \<noteq> Stopped" by auto
    from Cons.prems(2) have nq: "CHR 0x22 \<notin> set cs" by simp
    from Cons.IH [OF nxt nq] ns False show ?thesis by auto
  qed
qed

lemma trailing_data_unquoted:
  "CHR 0x22 \<notin> set cs \<Longrightarrow> trailing_data cs = (CHR ''}'' \<in> set (butlast cs))"
  using unquoted_close [of AwaitElement cs]
  by (auto simp: trailing_data_def split: option.splits)

lemma trailing_data_no_bracket: "CHR ''}'' \<notin> set cs \<Longrightarrow> \<not> trailing_data cs"
  by (simp add: trailing_data_def no_bracket_no_close)

subsection \<open>Encoding followed by decoding\<close>

lemma string_value_loop_concat:
  "string_value_loop b xs =
     b @ concat (map (\<lambda>x. CHR '','' # CHR 0x22 # escape x @ [CHR 0x22]) xs)"
  by (induction xs arbitrary: b) (simp_all add: appendArrayQuotedString_escape)

lemma scan_quoted_tail:
  "scan_loop i \<lparr>state = stateOpenBracket, buffer = Some v, results = r\<rparr>
     (concat (map (\<lambda>x. CHR '','' # CHR 0x22 # escape x @ [CHR 0x22]) xs) @ [CHR ''}'']) =
   Inr \<lparr>state = stateStop, buffer = Some (last (v # xs)), results = r @ v # xs\<rparr>"
proof (induction xs arbitrary: i v r)
  case Nil
  show ?case by (simp add: scan_step_def)
next
  case (Cons x xs)
  have "scan_loop i \<lparr>state = stateOpenBracket, buffer = Some v, results = r\<rparr>
          (CHR '','' # CHR 0x22 # escape x @ CHR 0x22 #
             concat (map (\<lambda>x. CHR '','' # CHR 0x22 # escape x @ [CHR 0x22]) xs) @ [CHR ''}'']) =
        scan_loop (Suc i) \<lparr>state = stateOpenBracket, buffer = Some [], results = r @ [v]\<rparr>
          (CHR 0x22 # escape x @ CHR 0x22 #
             concat (map (\<lambda>x. CHR '','' # CHR 0x22 # escape x @ [CHR 0x22]) xs) @ [CHR ''}''])"
    by (simp add: scan_step_def string_of_def)
  also have "\<dots> = scan_loop i \<lparr>state = stateOpenBracket, buffer = Some x, results = r @ [v]\<rparr>
          (concat (map (\<lambda>x. CHR '','' # CHR 0x22 # escape x @ [CHR 0x22]) xs) @ [CHR ''}''])"
    by (rule scan_quoted_element)
  also have "\<dots> = Inr \<lparr>state = stateStop, buffer = Some (last (x # xs)),
                        results = (r @ [v]) @ x # xs\<rparr>"
    by (rule Cons.IH)
  finally show ?case by simp
qed

lemma StringArray_roundtrip:
  "StringArray_Scan a (fst (StringArray_Value (Some xs))) = (Some xs, None)"
proof (cases xs)
  case Nil
  then show ?thesis
    by (simp add: StringArray_Value_def StringArray_Scan_def scan_start_def scan_step_def)
next
  case (Cons x xs')
  have "scan_loop 1 scan_start
          (CHR 0x22 # escape x @ CHR 0x22 #
            concat (map (\<lambda>x. CHR '','' # CHR 0x22 # escape x @ [CHR 0x22]) xs') @ [CHR ''}'']) =
        scan_loop 1 \<lparr>state = stateOpenBracket, buffer = Some x, results = []\<rparr>
          (concat (map (\<lambda>x. CHR '','' # CHR 0x22 # escape x @ [CHR 0x22]) xs') @ [CHR ''}''])"
    unfolding scan_start_def by (rule scan_quoted_element)
  also have "\<dots> = Inr \<lparr>state = stateStop, buffer = Some (last (x # xs')), results = [] @ x # xs'\<rparr>"
    by (rule scan_quoted_tail)
  finally show ?thesis
    using Cons
    by (simp add: StringArray_Value_def StringArray_Scan_def string_value_loop_concat
          appendArrayQuotedString_escape)
qed

lemma StringArray_Value_no_error: "snd (StringArray_Value a) = None"
  by (simp add: StringArray_Value_def split: option.splits list.splits)


lemma of_char_digit: "d < 10 \<Longrightarrow> (of_char (char_of (48 + d :: nat)) :: nat) = 48 + d"
  by simp

lemma decimal_digits: "\<forall>c \<in> set (decimal n). is_digit c"
proof (induction n rule: decimal.induct)
  case (1 n)
  show ?case
  proof (cases "n < 10")
    case True
    then show ?thesis by (simp add: decimal.simps [of n] is_digit_def)
  next
    case False
    have "n mod 10 < 10" by simp
    then have "is_digit (char_of (48 + n mod 10))"
      unfolding is_digit_def by (simp only: of_char_digit) simp
    with False "1" show ?thesis by (simp add: decimal.simps [of n])
  qed
qed

lemma decimal_nonempty: "decimal n \<noteq> []"
  by (simp add: decimal.simps [of n])

lemma ParseUint_loop_snoc:
  "ParseUint_loop n (xs @ [c]) =
     (case ParseUint_loop n xs of Inl e \<Rightarrow> Inl e | Inr m \<Rightarrow> ParseUint_loop m [c])"
  by (induction xs arbitrary: n) (simp_all add: Let_def)

lemma ParseUint_loop_digit:
  assumes "d < 10" and "10 * k + d \<le> maxUint64"
  shows "ParseUint_loop k [char_of (48 + d)] = Inr (10 * k + d)"
proof -
  have k: "k < maxUint64 div 10 + 1" using assms by (simp add: maxUint64_def)
  have lt: "10 * k + d < 2 ^ 64" "k * 10 < (2::nat) ^ 64"
    using assms by (simp_all add: maxUint64_def)
  have oc: "(of_char (char_of (48 + d)) :: nat) = 48 + d"
    using assms(1) by (rule of_char_digit)
  show ?thesis
    using k lt assms
    by (simp add: oc Let_def mult.commute del: of_char_of)
qed

lemma ParseUint_loop_decimal:
  "m \<le> maxUint64 \<Longrightarrow> ParseUint_loop 0 (decimal m) = Inr m"
proof (induction m rule: decimal.induct)
  case (1 m)
  show ?case
  proof (cases "m < 10")
    case True
    with "1.prems" ParseUint_loop_digit [of m 0] show ?thesis
      by (simp add: decimal.simps [of m])
  next
    case False
    have "m div 10 \<le> maxUint64" using "1.prems" by simp
    with "1.IH" False have ih: "ParseUint_loop 0 (decimal (m div 10)) = Inr (m div 10)"
      by simp
    have "ParseUint_loop (m div 10) [char_of (48 + m mod 10)] = Inr (10 * (m div 10) + m mod 10)"
      using "1.prems" by (intro ParseUint_loop_digit) simp_all
    with ih False show ?thesis
      by (simp add: decimal.simps [of m] ParseUint_loop_snoc)
  qed
qed

lemma ParseUint_decimal: "m \<le> maxUint64 \<Longrightarrow> ParseUint (decimal m) = Inr m"
  by (simp add: ParseUint_def decimal_nonempty ParseUint_loop_decimal)

lemma hd_decimal_digit: "is_digit (hd (decimal n))"
  using decimal_digits [of n] decimal_nonempty [of n] by (cases "decimal n") auto

lemma hd_decimal_not_sign: "hd (decimal n) \<noteq> CHR ''-''" "hd (decimal n) \<noteq> CHR ''+''"
  using hd_decimal_digit [of n] by (auto simp: is_digit_def)

lemma ParseInt_AppendInt: "ParseInt (AppendInt [] i) = Inr i"
proof (cases "sint i < 0")
  case True
  define k where "k = nat (- sint i)"
  have "- (2 ^ 63) \<le> sint i" using sint_ge [of i] by simp
  then have k63: "k \<le> 2 ^ 63" unfolding k_def by simp
  then have "k \<le> maxUint64" by (simp add: maxUint64_def)
  then have pu: "ParseUint (decimal k) = Inr k" by (rule ParseUint_decimal)
  have "- (word_of_nat k :: int64) = - word_of_int (- sint i)"
    unfolding k_def using True by (simp add: of_nat_nat)
  then have val: "- (word_of_nat k :: int64) = i" by simp
  show ?thesis
    using True k63 pu val
    by (simp add: ParseInt_def AppendInt_def k_def [symmetric] Let_def)
next
  case False
  define k where "k = nat (sint i)"
  have "sint i < 2 ^ 63" using sint_lt [of i] by simp
  then have k63: "k < 2 ^ 63" unfolding k_def using False by simp
  then have "k \<le> maxUint64" by (simp add: maxUint64_def)
  then have pu: "ParseUint (decimal k) = Inr k" by (rule ParseUint_decimal)
  have "(word_of_nat k :: int64) = word_of_int (sint i)"
    unfolding k_def using False by (simp add: of_nat_nat)
  then have val: "(word_of_nat k :: int64) = i" by simp
  show ?thesis
    using False k63 pu val hd_decimal_not_sign [of k] decimal_nonempty [of k]
    by (simp add: ParseInt_def AppendInt_def k_def [symmetric] Let_def)
qed

lemma Split_nonempty: "Split s sep \<noteq> []"
  by (induction s) (auto split: list.splits)

lemma Split_no_sep: "sep \<notin> set x \<Longrightarrow> Split x sep = [x]"
  by (induction x) auto

lemma Split_first: "sep \<notin> set x \<Longrightarrow> Split (x @ sep # rest) sep = x # Split rest sep"
  by (induction x) auto

lemma AppendInt_append: "AppendInt b i = b @ AppendInt [] i"
  by (simp add: AppendInt_def)

lemma comma_not_digit: "\<not> is_digit (CHR '','')"
  by (simp add: is_digit_def)

lemma AppendInt_no_comma: "CHR '','' \<notin> set (AppendInt [] i)"
  using decimal_digits comma_not_digit by (auto simp: AppendInt_def)

lemma AppendInt_nonempty: "AppendInt [] i \<noteq> []"
  by (simp add: AppendInt_def decimal_nonempty)

lemma int64_value_loop_concat:
  "int64_value_loop b xs = b @ concat (map (\<lambda>x. CHR '','' # AppendInt [] x) xs)"
proof (induction xs arbitrary: b)
  case Nil
  show ?case by simp
next
  case (Cons x xs)
  show ?case by (simp add: Cons.IH AppendInt_append [of "b @ [CHR '','']"])
qed

lemma Split_joined:
  "Split (AppendInt [] x @ concat (map (\<lambda>x. CHR '','' # AppendInt [] x) xs)) (CHR '','') =
     map (AppendInt []) (x # xs)"
proof (induction xs arbitrary: x)
  case Nil
  show ?case by (simp add: Split_no_sep AppendInt_no_comma)
next
  case (Cons y ys)
  show ?case
    using Cons.IH [of y] by (simp add: Split_first AppendInt_no_comma)
qed

lemma parse_parts_formatted:
  "parse_parts res (map (AppendInt []) xs) = Inr (res @ xs)"
  by (induction xs arbitrary: res) (simp_all add: ParseInt_AppendInt)

lemma Int64Array_roundtrip:
  "Int64Array_Scan a (fst (Int64Array_Value (Some xs))) = Return (Some xs, None)"
proof (cases xs)
  case Nil
  then show ?thesis by (simp add: Int64Array_Value_def Int64Array_Scan_def)
next
  case (Cons x xs')
  define body where
    "body = AppendInt [] x @ concat (map (\<lambda>x. CHR '','' # AppendInt [] x) xs')"
  have enc: "fst (Int64Array_Value (Some (x # xs'))) = VBytes (CHR ''{'' # body @ [CHR ''}''])"
    by (simp add: Int64Array_Value_def int64_value_loop_concat body_def
          AppendInt_append [of "[CHR ''{'']"])
  have ne: "body \<noteq> []" by (simp add: body_def AppendInt_nonempty)
  have split: "Split body (CHR '','') = map (AppendInt []) (x # xs')"
    unfolding body_def by (rule Split_joined)
  have parts: "parse_parts [] (map (AppendInt []) (x # xs')) = Inr (x # xs')"
    using parse_parts_formatted [of "[]" "x # xs'"] by simp
  have "Int64Array_Scan a (VBytes (CHR ''{'' # body @ [CHR ''}''])) =
          Return (Some (x # xs'), None)"
    using ne
    by (simp add: Int64Array_Scan_def split parts del: parse_parts.simps list.map)
  then show ?thesis unfolding enc Cons .
qed

lemma Int64Array_Value_no_error: "snd (Int64Array_Value a) = None"
  by (simp add: Int64Array_Value_def split: option.splits list.splits)


section \<open>Properties of the paginator\<close>

subsection \<open>Resolution of a chain\<close>

lemmas run_defs = FastForward_def build_def buildWithCursor_def newPaginator_def Page_def Cursor_def
  NextPage_def PrevPage_def frame_def Fn_def Base_def newPaginator_fn_def Page_fn_def Cursor_fn_def
  NextPage_fn_def PrevPage_fn_def with_sel_def bind_result_def ok_def cursor_order_def
  cursor_filter_def cursor_wrap_def HasPrefix_def Let_def

lemma frames_of_frame: "frames_of (frame pag f) = frames_of pag @ [frame pag f]"
  by (simp add: frame_def)

lemma apply_frames_append:
  "apply_frames pq (xs @ ys) =
     (case apply_frames pq xs of
        Return (Inr pq') \<Rightarrow> apply_frames pq' ys
      | Return (Inl err) \<Rightarrow> Return (Inl err)
      | Panic \<Rightarrow> Panic)"
  by (induction xs arbitrary: pq) (auto split: go_result.splits sum.splits)

lemma FastForward_frame:
  "FastForward (frame pag f) =
     (case FastForward pag of
        Return (Inr pq) \<Rightarrow> f pq
      | Return (Inl err) \<Rightarrow> Return (Inl err)
      | Panic \<Rightarrow> Panic)"
  by (simp add: FastForward_def frames_of_frame apply_frames_append)
     (auto simp: Fn_def frame_def split: go_result.splits sum.splits)

lemma FastForward_frame_ok:
  "FastForward pag = Return (Inr pq) \<Longrightarrow> FastForward (frame pag f) = f pq"
  by (simp add: FastForward_frame)

lemma FastForward_frame_error:
  "FastForward pag = Return (Inl err) \<Longrightarrow> FastForward (frame pag f) = Return (Inl err)"
  by (simp add: FastForward_frame)

lemma FastForward_root: "FastForward (Paginator None None) = Return (Inr Base)"
  by (simp add: FastForward_def Fn_def)

lemma FastForward_newPaginator:
  "FastForward (newPaginator (Some s) ps) =
     Return (Inr (Base\<lparr>pageSize := (if sint ps < 0 then - 1 else ps),
                       sel := Some (Offset 0 (Limit (if sint ps < 0 then - 1 else ps) s))\<rparr>))"
  by (simp add: newPaginator_def Page_def FastForward_frame FastForward_root newPaginator_fn_def
        Page_fn_def Let_def ok_def with_sel_def bind_result_def Base_def)

lemma Page_resolves:
  assumes "FastForward pag = Return (Inr pq)" and "sel pq = Some s"
  shows "FastForward (Page pag n) =
           Return (Inr (if sint n < 0 then pq\<lparr>pageNumber := - 1, sel := Some (Offset (- 1) s)\<rparr>
                        else pq\<lparr>pageNumber := n, sel := Some (Offset (pageSize pq * n) s)\<rparr>))"
  using assms
  by (simp add: Page_def FastForward_frame_ok Page_fn_def Let_def ok_def with_sel_def
        bind_result_def)

lemma product_fits:
  fixes ps n :: go_int
  assumes "0 \<le> sint ps" "0 \<le> sint n" "sint ps * sint n < 2 ^ 63"
  shows "sint (ps * n) = sint ps * sint n"
proof -
  have nn: "0 \<le> sint ps * sint n" using assms by simp
  have "- (2 ^ 63 :: int) \<le> 0" by simp
  from this nn have lo: "- (2 ^ 63) \<le> sint ps * sint n" by (rule order_trans)
  show ?thesis
    using lo assms(3) by (simp add: sint_word_ariths signed_take_bit_int_eq_self)
qed


lemma Cursor_resolves:
  "FastForward pag = Return (Inr pq) \<Longrightarrow>
   FastForward (Cursor pag c) = Return (Inr (pq\<lparr>cursorColumn := c, cursorValue := NilValue\<rparr>))"
  by (simp add: Cursor_def FastForward_frame_ok Cursor_fn_def)

lemma NextPage_resolves:
  "FastForward pag = Return (Inr pq) \<Longrightarrow> FastForward (NextPage pag v) = NextPage_fn v pq"
  by (simp add: NextPage_def FastForward_frame_ok)

lemma PrevPage_resolves:
  "FastForward pag = Return (Inr pq) \<Longrightarrow> FastForward (PrevPage pag v) = PrevPage_fn v pq"
  by (simp add: PrevPage_def FastForward_frame_ok)

lemma buildWithCursor_ok:
  "FastForward pag = Return (Inr pq) \<Longrightarrow>
   buildWithCursor pag = ok (bind_result (bind_result (cursor_order pq) cursor_filter) cursor_wrap)"
  by (simp add: buildWithCursor_def)

subsection \<open>The fetch family\<close>

lemmas fetch_defs = All_pag_def One_pag_def Iterator_def IteratorContext_def String_pag_def Arguments_def
  Query_def QueryContext_def QueryRow_def QueryRowContext_def Prepare_def PrepareContext_def

lemma fetch_cases:
  "fetch t pag =
    (case buildWithCursor pag of
       Panic \<Rightarrow> RuntimePanic
     | Return (Inl err) \<Rightarrow> (if t = TArguments then ReturnsNil else reports t err)
     | Return (Inr pq) \<Rightarrow> delegate t pq)"
  by (cases t) (simp_all add: fetch_defs reports_def split: go_result.splits sum.splits)

lemma fetch_delegates_only_resolved:
  assumes a: "fetch t pag = Delegates t' s'"
  shows "t' = t \<and> (\<exists>pq'. buildWithCursor pag = Return (Inr pq') \<and> sel pq' = Some s')"
proof (cases "buildWithCursor pag")
  case Panic
  with a show ?thesis by (simp add: fetch_cases)
next
  case (Return r)
  show ?thesis
  proof (cases r)
    case (Inl err)
    with a Return show ?thesis by (simp add: fetch_cases reports_def split: if_splits)
  next
    case (Inr pq')
    with a Return show ?thesis
      by (cases "sel pq'") (simp_all add: fetch_cases delegate_def)
  qed
qed



subsection \<open>Chains read from the heap\<close>










subsection \<open>Rounding to float64\<close>
































subsection \<open>Claims about the array codec\<close>

text \<open>
  C1, as the spec states it, at a source that lacks its closing bracket: the spec says that
  decoding such a source fails with a decode error. \<^verbatim>\<open>StringArray.Scan\<close> has no check
  after its loop: on the two bytes \<open>{a\<close> it returns no error and assigns the empty array
  (the pending literal \<open>a\<close> is dropped).
\<close>

theorem StringArray_Scan_unclosed_accepted:
  "StringArray_Scan None (VBytes ''{a'') = (Some [], None)"
  by (simp add: StringArray_Scan_def scan_start_def scan_step_def)

text \<open>
  C1, amended. \<^verbatim>\<open>StringArray.Scan\<close> on an absent (nil) source and on a zero-length byte
  source assigns nil and returns no error. On any other byte source the byte at index 0 is
  not inspected (the result is the same whatever it is), and the call fails exactly when at
  least one byte follows the closing bracket, the bracket being the one at which the scan
  described by the spec stops: then the error is "additional data" and the receiver is left
  as it was. A source that has no closing bracket, or ends with it, is decoded without
  error. In particular a source with no \<open>}\<close> after index 0 never fails, and a source
  without double quotes fails exactly when a \<open>}\<close> stands before its last byte.
\<close>

theorem StringArray_Scan_decode:
  "StringArray_Scan a VNil = (None, None) \<and>
   StringArray_Scan a (VBytes []) = (None, None) \<and>
   StringArray_Scan a (VBytes (c0 # cs)) = StringArray_Scan a (VBytes (c1 # cs)) \<and>
   (trailing_data cs \<longrightarrow>
      StringArray_Scan a (VBytes (c0 # cs)) = (a, Some AdditionalData)) \<and>
   (\<not> trailing_data cs \<longrightarrow> snd (StringArray_Scan a (VBytes (c0 # cs))) = None) \<and>
   (CHR ''}'' \<notin> set cs \<longrightarrow> snd (StringArray_Scan a (VBytes (c0 # cs))) = None) \<and>
   (CHR 0x22 \<notin> set cs \<longrightarrow>
      (snd (StringArray_Scan a (VBytes (c0 # cs))) \<noteq> None) = (CHR ''}'' \<in> set (butlast cs)))"
proof -
  have iff: "(\<exists>e. snd (StringArray_Scan a (VBytes (c0 # cs))) = Some e) = trailing_data cs"
    by (rule StringArray_Scan_fails_iff)
  have fails: "StringArray_Scan a (VBytes (c0 # cs)) = (a, Some AdditionalData)"
    if "trailing_data cs"
  proof -
    from that iff obtain e where e: "snd (StringArray_Scan a (VBytes (c0 # cs))) = Some e"
      by blast
    from StringArray_Scan_error_value [OF e] e show ?thesis
      by (cases "StringArray_Scan a (VBytes (c0 # cs))") simp
  qed
  have passes: "snd (StringArray_Scan a (VBytes (c0 # cs))) = None" if "\<not> trailing_data cs"
    using that iff by (cases "snd (StringArray_Scan a (VBytes (c0 # cs)))") auto
  have nobracket: "snd (StringArray_Scan a (VBytes (c0 # cs))) = None" if "CHR ''}'' \<notin> set cs"
    using that passes trailing_data_no_bracket by blast
  have unquoted: "(snd (StringArray_Scan a (VBytes (c0 # cs))) \<noteq> None) =
      (CHR ''}'' \<in> set (butlast cs))" if "CHR 0x22 \<notin> set cs"
    using iff trailing_data_unquoted [OF that] by auto
  show ?thesis
    using fails passes nobracket unquoted
    by (simp add: StringArray_Scan_first_byte [of a c0 cs c1])
       (simp add: StringArray_Scan_def)
qed

theorem StringArray_Scan_decode_witness:
  "trailing_data ''a}x'' \<and>
   StringArray_Scan (Some [''k'']) (VBytes ''{a}x'') = (Some [''k''], Some AdditionalData) \<and>
   \<not> trailing_data ''a,b'' \<and>
   snd (StringArray_Scan (Some [''k'']) (VBytes ''{a,b'')) = None \<and>
   \<not> trailing_data [CHR 0x22, CHR ''}'', CHR 0x22, CHR ''}''] \<and>
   snd (StringArray_Scan (Some [''k''])
          (VBytes [CHR ''{'', CHR 0x22, CHR ''}'', CHR 0x22, CHR ''}''])) = None \<and>
   trailing_data [CHR 0x22, CHR ''a'', CHR 0x22, CHR ''}'', CHR ''x''] \<and>
   StringArray_Scan (Some [''k''])
     (VBytes [CHR ''{'', CHR 0x22, CHR ''a'', CHR 0x22, CHR ''}'', CHR ''x'']) =
     (Some [''k''], Some AdditionalData)"
proof -
  have h1: "trailing_data ''a}x''"
    by (simp add: trailing_data_def)
  have h2: "\<not> trailing_data ''a,b''"
    by (simp add: trailing_data_def)
  have h3: "\<not> trailing_data [CHR 0x22, CHR ''}'', CHR 0x22, CHR ''}'']"
    by (simp add: trailing_data_def)
  have h4: "trailing_data [CHR 0x22, CHR ''a'', CHR 0x22, CHR ''}'', CHR ''x'']"
    by (simp add: trailing_data_def)
  show ?thesis
    using h1 h2 h3 h4
      StringArray_Scan_decode [of "Some [''k'']" "CHR ''{''" "''a}x''" "CHR ''{''"]
      StringArray_Scan_decode [of "Some [''k'']" "CHR ''{''" "''a,b''" "CHR ''{''"]
      StringArray_Scan_decode [of "Some [''k'']" "CHR ''{''"
        "[CHR 0x22, CHR ''}'', CHR 0x22, CHR ''}'']" "CHR ''{''"]
      StringArray_Scan_decode [of "Some [''k'']" "CHR ''{''"
        "[CHR 0x22, CHR ''a'', CHR 0x22, CHR ''}'', CHR ''x'']" "CHR ''{''"]
    by simp
qed

text \<open>
  C7. Encoding a present sequence never fails, and decoding the bytes it produced gives
  back exactly the original elements in order, whatever the receiver held before: for every
  sequence of strings (any bytes, so also commas, quotes, backslashes and empty strings) and
  for every sequence of 64-bit integers; in particular for the five strings
  \<open>a\<close>, \<open>b,c\<close>, \<open>x"y\<close>, the empty string and \<open>z\w\<close>, and for the integers -1, 0 and
  9223372036854775807.
\<close>

theorem array_codec_roundtrip:
  "snd (StringArray_Value (Some xs)) = None \<and>
   StringArray_Scan a (fst (StringArray_Value (Some xs))) = (Some xs, None) \<and>
   snd (Int64Array_Value (Some ns)) = None \<and>
   Int64Array_Scan b (fst (Int64Array_Value (Some ns))) = Return (Some ns, None) \<and>
   StringArray_Scan a
     (fst (StringArray_Value
        (Some [''a'', ''b,c'', [CHR ''x'', CHR 0x22, CHR ''y''], '''',
               [CHR ''z'', CHR 0x5C, CHR ''w'']]))) =
     (Some [''a'', ''b,c'', [CHR ''x'', CHR 0x22, CHR ''y''], '''',
            [CHR ''z'', CHR 0x5C, CHR ''w'']], None) \<and>
   Int64Array_Scan b (fst (Int64Array_Value (Some [- 1, 0, 9223372036854775807]))) =
     Return (Some [- 1, 0, 9223372036854775807], None)"
  by (simp only: StringArray_roundtrip Int64Array_roundtrip StringArray_Value_no_error
        Int64Array_Value_no_error simp_thms)

text \<open>
  C10. Whenever \<^verbatim>\<open>StringArray.Scan\<close> or \<^verbatim>\<open>Int64Array.Scan\<close> returns a non-nil error
  (a source that is not a byte slice, data after the closing bracket, an integer token that
  does not parse), the receiver is exactly what it was before the call: both methods
  collect the elements in a local slice and assign the receiver only on success.
\<close>

theorem Scan_error_leaves_receiver:
  "(snd (StringArray_Scan a src) \<noteq> None \<longrightarrow> fst (StringArray_Scan a src) = a) \<and>
   (\<forall>b' e. Int64Array_Scan b src' = Return (b', Some e) \<longrightarrow> b' = b)"
  by (auto simp: StringArray_Scan_def Int64Array_Scan_def Let_def
      split: driver_value.splits sum.splits if_splits)

theorem Scan_error_leaves_receiver_witness:
  "snd (StringArray_Scan (Some [''k'']) (VBytes ''{a,b}x'')) \<noteq> None \<and>
   fst (StringArray_Scan (Some [''k'']) (VBytes ''{a,b}x'')) = Some [''k''] \<and>
   Int64Array_Scan (Some [7]) (VBytes ''{1,x}'') = Return (Some [7], Some ErrSyntax)"
proof -
  have h1: "snd (StringArray_Scan (Some [''k'']) (VBytes ''{a,b}x'')) \<noteq> None"
    by (simp add: StringArray_Scan_def scan_start_def scan_step_def string_of_def
          append_byte_def)
  have h2: "\<exists>b'. Int64Array_Scan (Some [7]) (VBytes ''{1,x}'') = Return (b', Some ErrSyntax)"
    by (simp add: Int64Array_Scan_def ParseInt_def ParseUint_def maxUint64_def Let_def)
  show ?thesis
    using h1 h2 Scan_error_leaves_receiver [of "Some [''k'']" "VBytes ''{a,b}x''"
        "Some [7]" "VBytes ''{1,x}''"]
    by auto
qed

subsection \<open>Claims about the paginator\<close>

text \<open>
  C2, as the spec states it, at a cursor column that is given in descending order: the
  spec says that for every cursor column the inner query is ordered descending and the
  outer query ascending. For the column \<open>-id\<close> the flip removes the leading \<open>-\<close>: the
  inner query is ordered by \<open>id\<close>, ascending, and the wrapping query by \<open>-id\<close>,
  descending.
\<close>

theorem PrevPage_descending_column:
  "buildWithCursor (PrevPage (Cursor (newPaginator (Some (Source 0)) 10) ''-id'') (IntValue 42)) =
     Return (Inr \<lparr>sel = Some (OrderBy ''-id'' (SelectFrom ''_q0.*'' ''? AS _q0''
                     (Offset 0 (Where [''-id <'' \<mapsto> IntValue 42]
                        (OrderBy ''id'' (Offset 0 (Limit 10 (Source 0)))))))),
       cursorColumn = ''-id'', cursorValue = IntValue 42,
       cursorCond = Some [''-id <'' \<mapsto> IntValue 42],
       cursorReverseOrder = True, pageSize = 10, pageNumber = 0\<rparr>) \<and>
   \<not> descending ''id'' \<and> descending ''-id''"
  by (simp add: run_defs descending_def)

text \<open>
  C2, amended. For every non-empty cursor column \<open>c\<close> and every value \<open>v\<close>, on a chain
  that resolves: after \<^verbatim>\<open>Cursor(c)\<close>, \<^verbatim>\<open>PrevPage(v)\<close> stages \<open>v\<close>, sets the backward
  direction and sets the cursor condition to the single entry \<open>c <\<close> : \<open>v\<close>. At resolution
  the query is ordered by \<open>c\<close> with its direction flipped (a leading \<open>-\<close> removed, or added
  when there is none), filtered by the condition with the offset forced to 0, then wrapped
  as a subquery projecting all its columns and ordered by \<open>c\<close> as given. For a column
  without a leading \<open>-\<close> the inner order is descending and the outer order ascending.
\<close>

theorem PrevPage_after_Cursor:
  "FastForward pag = Return (Inr pq) \<and> sel pq = Some s \<and> c \<noteq> [] \<longrightarrow>
     FastForward (PrevPage (Cursor pag c) v) =
       Return (Inr (pq\<lparr>cursorColumn := c, cursorValue := v, cursorReverseOrder := True,
                        cursorCond := Some [c @ '' <'' \<mapsto> v]\<rparr>)) \<and>
     buildWithCursor (PrevPage (Cursor pag c) v) =
       Return (Inr (pq\<lparr>cursorColumn := c, cursorValue := v, cursorReverseOrder := True,
                        cursorCond := Some [c @ '' <'' \<mapsto> v],
                        sel := Some (OrderBy c (SelectFrom ''_q0.*'' ''? AS _q0''
                                 (Offset 0 (Where [c @ '' <'' \<mapsto> v]
                                    (OrderBy (flip_order c) s)))))\<rparr>)) \<and>
     (\<not> HasPrefix c ''-'' \<longrightarrow> descending (flip_order c) \<and> \<not> descending c)"
proof (intro impI)
  assume a: "FastForward pag = Return (Inr pq) \<and> sel pq = Some s \<and> c \<noteq> []"
  then have cur: "FastForward (Cursor pag c) =
      Return (Inr (pq\<lparr>cursorColumn := c, cursorValue := NilValue\<rparr>))"
    by (simp add: Cursor_resolves)
  have ff: "FastForward (PrevPage (Cursor pag c) v) =
       Return (Inr (pq\<lparr>cursorColumn := c, cursorValue := v, cursorReverseOrder := True,
                        cursorCond := Some [c @ '' <'' \<mapsto> v]\<rparr>))"
    by (simp add: PrevPage_resolves [OF cur] PrevPage_fn_def)
  have bw: "buildWithCursor (PrevPage (Cursor pag c) v) =
       Return (Inr (pq\<lparr>cursorColumn := c, cursorValue := v, cursorReverseOrder := True,
                        cursorCond := Some [c @ '' <'' \<mapsto> v],
                        sel := Some (OrderBy c (SelectFrom ''_q0.*'' ''? AS _q0''
                                 (Offset 0 (Where [c @ '' <'' \<mapsto> v]
                                    (OrderBy (flip_order c) s)))))\<rparr>))"
    using a
    by (simp add: buildWithCursor_ok [OF ff] cursor_order_def cursor_filter_def cursor_wrap_def
          with_sel_def bind_result_def ok_def flip_order_def Let_def)
  have dir: "\<not> HasPrefix c ''-'' \<longrightarrow> descending (flip_order c) \<and> \<not> descending c"
    by (simp add: descending_def flip_order_def HasPrefix_def)
  from ff bw dir show "FastForward (PrevPage (Cursor pag c) v) =
       Return (Inr (pq\<lparr>cursorColumn := c, cursorValue := v, cursorReverseOrder := True,
                        cursorCond := Some [c @ '' <'' \<mapsto> v]\<rparr>)) \<and>
     buildWithCursor (PrevPage (Cursor pag c) v) =
       Return (Inr (pq\<lparr>cursorColumn := c, cursorValue := v, cursorReverseOrder := True,
                        cursorCond := Some [c @ '' <'' \<mapsto> v],
                        sel := Some (OrderBy c (SelectFrom ''_q0.*'' ''? AS _q0''
                                 (Offset 0 (Where [c @ '' <'' \<mapsto> v]
                                    (OrderBy (flip_order c) s)))))\<rparr>)) \<and>
     (\<not> HasPrefix c ''-'' \<longrightarrow> descending (flip_order c) \<and> \<not> descending c)"
    by blast
qed

theorem PrevPage_after_Cursor_witness:
  "buildWithCursor (PrevPage (Cursor (newPaginator (Some (Source 0)) 10) ''id'') (IntValue 42)) =
     Return (Inr \<lparr>sel = Some (OrderBy ''id'' (SelectFrom ''_q0.*'' ''? AS _q0''
                     (Offset 0 (Where [''id <'' \<mapsto> IntValue 42]
                        (OrderBy ''-id'' (Offset 0 (Limit 10 (Source 0)))))))),
       cursorColumn = ''id'', cursorValue = IntValue 42,
       cursorCond = Some [''id <'' \<mapsto> IntValue 42],
       cursorReverseOrder = True, pageSize = 10, pageNumber = 0\<rparr>) \<and>
   descending ''-id'' \<and> \<not> descending ''id''"
proof -
  have ff: "FastForward (newPaginator (Some (Source 0)) 10) =
      Return (Inr (Base\<lparr>pageSize := 10, sel := Some (Offset 0 (Limit 10 (Source 0)))\<rparr>))"
    by (simp add: FastForward_newPaginator)
  have np: "\<not> HasPrefix ''id'' ''-''" by (simp add: HasPrefix_def)
  show ?thesis
    using ff np
      PrevPage_after_Cursor [of "newPaginator (Some (Source 0)) 10"
        "Base\<lparr>pageSize := 10, sel := Some (Offset 0 (Limit 10 (Source 0)))\<rparr>"
        "Offset 0 (Limit 10 (Source 0))" "''id''" "IntValue 42"]
    by (simp add: Base_def flip_order_def HasPrefix_def)
qed


text \<open>
  C6, as the spec states it, where the product does not fit a Go \<^verbatim>\<open>int\<close>: with page size
  \<open>2^32\<close> and page number \<open>2^32\<close>, both positive, the offset handed to the Selector is
  \<open>0\<close>, not \<open>2^64\<close>.
\<close>

theorem Page_offset_wraps:
  "buildWithCursor (Page (newPaginator (Some (Source 0)) 4294967296) 4294967296) =
     Return (Inr \<lparr>sel = Some (Offset 0 (Offset 0 (Limit 4294967296 (Source 0)))),
       cursorColumn = [], cursorValue = NilValue, cursorCond = None,
       cursorReverseOrder = False, pageSize = 4294967296, pageNumber = 4294967296\<rparr>) \<and>
   0 < sint (4294967296 :: go_int) \<and>
   sint (4294967296 :: go_int) * sint (4294967296 :: go_int) \<noteq> sint (0 :: go_int)"
  by (simp add: run_defs)

text \<open>
  C6, amended. On a chain that resolves, \<^verbatim>\<open>Page(n)\<close> for a non-negative \<open>n\<close> records
  \<open>n\<close> and hands the Selector the offset \<open>pageSize * n\<close> computed in 64-bit arithmetic:
  for a positive page size it is the product \<open>pageSize \<times> n\<close> whenever that is below
  \<open>2^63\<close>. For a negative \<open>n\<close> it records the sentinel \<open>-1\<close> and hands the Selector the
  offset \<open>-1\<close>, not \<open>0\<close>; \<open>n = 0\<close> is not normalized. On a paginator made by
  \<^verbatim>\<open>newPaginator\<close> with a positive page size, the fetch-time resolution keeps that
  offset.
\<close>

theorem Page_offset:
  "(FastForward pag = Return (Inr pq) \<and> sel pq = Some s \<and> 0 \<le> sint n \<longrightarrow>
      FastForward (Page pag n) =
        Return (Inr (pq\<lparr>pageNumber := n, sel := Some (Offset (pageSize pq * n) s)\<rparr>)) \<and>
      offset_of (Offset (pageSize pq * n) s) = Some (pageSize pq * n)) \<and>
   (0 < sint (pageSize pq) \<and> 0 \<le> sint n \<and> sint (pageSize pq) * sint n < 2 ^ 63 \<longrightarrow>
      sint (pageSize pq * n) = sint (pageSize pq) * sint n) \<and>
   (FastForward pag = Return (Inr pq) \<and> sel pq = Some s \<and> sint n < 0 \<longrightarrow>
      FastForward (Page pag n) =
        Return (Inr (pq\<lparr>pageNumber := - 1, sel := Some (Offset (- 1) s)\<rparr>)) \<and>
      offset_of (Offset (- 1) s) = Some (- 1) \<and> sint (- 1 :: go_int) = - 1) \<and>
   (0 < sint ps \<and> 0 \<le> sint n \<longrightarrow>
      buildWithCursor (Page (newPaginator (Some s0) ps) n) =
        Return (Inr (Base\<lparr>pageSize := ps, pageNumber := n,
                          sel := Some (Offset (ps * n) (Offset 0 (Limit ps s0)))\<rparr>)))"
proof (intro conjI impI)
  assume a: "FastForward pag = Return (Inr pq) \<and> sel pq = Some s \<and> 0 \<le> sint n"
  then show "FastForward (Page pag n) =
        Return (Inr (pq\<lparr>pageNumber := n, sel := Some (Offset (pageSize pq * n) s)\<rparr>))"
    using Page_resolves [of pag pq s n] by simp
  show "offset_of (Offset (pageSize pq * n) s) = Some (pageSize pq * n)" by simp
next
  assume "0 < sint (pageSize pq) \<and> 0 \<le> sint n \<and> sint (pageSize pq) * sint n < 2 ^ 63"
  then show "sint (pageSize pq * n) = sint (pageSize pq) * sint n"
    using product_fits [of "pageSize pq" n] by simp
next
  assume a: "FastForward pag = Return (Inr pq) \<and> sel pq = Some s \<and> sint n < 0"
  then show "FastForward (Page pag n) =
        Return (Inr (pq\<lparr>pageNumber := - 1, sel := Some (Offset (- 1) s)\<rparr>))"
    using Page_resolves [of pag pq s n] by simp
  show "offset_of (Offset (- 1) s) = Some (- 1)" by simp
  show "sint (- 1 :: go_int) = - 1" by simp
next
  assume a: "0 < sint ps \<and> 0 \<le> sint n"
  have ff: "FastForward (newPaginator (Some s0) ps) =
          Return (Inr (Base\<lparr>pageSize := ps, sel := Some (Offset 0 (Limit ps s0))\<rparr>))"
    using a by (simp add: FastForward_newPaginator)
  have "FastForward (Page (newPaginator (Some s0) ps) n) =
          Return (Inr (Base\<lparr>pageSize := ps, pageNumber := n,
                            sel := Some (Offset (ps * n) (Offset 0 (Limit ps s0)))\<rparr>))"
    using a Page_resolves [OF ff, of "Offset 0 (Limit ps s0)" n] by (simp add: Base_def)
  then show "buildWithCursor (Page (newPaginator (Some s0) ps) n) =
        Return (Inr (Base\<lparr>pageSize := ps, pageNumber := n,
                          sel := Some (Offset (ps * n) (Offset 0 (Limit ps s0)))\<rparr>))"
    by (simp add: buildWithCursor_def Base_def cursor_order_def cursor_filter_def
          cursor_wrap_def bind_result_def ok_def)
qed

theorem Page_offset_witness:
  "buildWithCursor (Page (newPaginator (Some (Source 0)) 10) 3) =
     Return (Inr (Base\<lparr>pageSize := 10, pageNumber := 3,
                       sel := Some (Offset 30 (Offset 0 (Limit 10 (Source 0))))\<rparr>)) \<and>
   buildWithCursor (Page (newPaginator (Some (Source 0)) 10) (- 7)) =
     Return (Inr (Base\<lparr>pageSize := 10, pageNumber := - 1,
                       sel := Some (Offset (- 1) (Offset 0 (Limit 10 (Source 0))))\<rparr>)) \<and>
   sint (10 * 3 :: go_int) = 30"
proof -
  have h1: "(0::int) < sint (10 :: go_int) \<and> 0 \<le> sint (3 :: go_int)" by simp
  have h3: "sint (10 :: go_int) * sint (3 :: go_int) < 2 ^ 63" by simp
  have ff: "FastForward (newPaginator (Some (Source 0)) 10) =
      Return (Inr (Base\<lparr>pageSize := 10, sel := Some (Offset 0 (Limit 10 (Source 0)))\<rparr>))"
    by (simp add: FastForward_newPaginator)
  have h2: "sint (- 7 :: go_int) < 0" by simp
  have neg: "FastForward (Page (newPaginator (Some (Source 0)) 10) (- 7)) =
     Return (Inr (Base\<lparr>pageSize := 10, pageNumber := - 1,
                       sel := Some (Offset (- 1) (Offset 0 (Limit 10 (Source 0))))\<rparr>))"
    using ff h2
      Page_offset [of "newPaginator (Some (Source 0)) 10"
        "Base\<lparr>pageSize := 10, sel := Some (Offset 0 (Limit 10 (Source 0)))\<rparr>"
        "Offset 0 (Limit 10 (Source 0))" "- 7" 10 "Source 0"]
    by (simp add: Base_def)
  have pos: "buildWithCursor (Page (newPaginator (Some (Source 0)) 10) 3) =
     Return (Inr (Base\<lparr>pageSize := 10, pageNumber := 3,
                       sel := Some (Offset 30 (Offset 0 (Limit 10 (Source 0))))\<rparr>))"
    using h1
      Page_offset [of "newPaginator (Some (Source 0)) 10"
        "Base\<lparr>pageSize := 10, sel := Some (Offset 0 (Limit 10 (Source 0)))\<rparr>"
        "Offset 0 (Limit 10 (Source 0))" 3 10 "Source 0"]
    by simp
  from neg have neg': "buildWithCursor (Page (newPaginator (Some (Source 0)) 10) (- 7)) =
     Return (Inr (Base\<lparr>pageSize := 10, pageNumber := - 1,
                       sel := Some (Offset (- 1) (Offset 0 (Limit 10 (Source 0))))\<rparr>))"
    by (simp add: buildWithCursor_def Base_def cursor_order_def cursor_filter_def
          cursor_wrap_def bind_result_def ok_def)
  show ?thesis using pos neg' by simp
qed





text \<open>
  C4. The frame of \<^verbatim>\<open>NextPage(v)\<close> and of \<^verbatim>\<open>PrevPage(v)\<close> fails with the
  missing-cursor-column error exactly when the staged cursor value is not nil and the cursor
  column is empty; in every other state it succeeds, stages \<open>v\<close>, sets the direction and
  builds the condition from the column. On a chain that resolves, the resolution of the
  extended chain is that frame applied to the resolved state. In particular the first such
  call on a new paginator, with no column configured and nothing staged, succeeds and
  builds the degenerate condition whose key is the bare operator.
\<close>

theorem cursor_navigation_check:
  "(NextPage_fn v pq = Return (Inl MissingCursorColumn)) =
     (cursorValue pq \<noteq> NilValue \<and> cursorColumn pq = []) \<and>
   (PrevPage_fn v pq = Return (Inl MissingCursorColumn)) =
     (cursorValue pq \<noteq> NilValue \<and> cursorColumn pq = []) \<and>
   (\<not> (cursorValue pq \<noteq> NilValue \<and> cursorColumn pq = []) \<longrightarrow>
      NextPage_fn v pq =
        Return (Inr (pq\<lparr>cursorValue := v, cursorReverseOrder := False,
                         cursorCond := Some [cursorColumn pq @ '' >'' \<mapsto> v]\<rparr>)) \<and>
      PrevPage_fn v pq =
        Return (Inr (pq\<lparr>cursorValue := v, cursorReverseOrder := True,
                         cursorCond := Some [cursorColumn pq @ '' <'' \<mapsto> v]\<rparr>))) \<and>
   (FastForward pag = Return (Inr pq) \<longrightarrow>
      FastForward (NextPage pag v) = NextPage_fn v pq \<and>
      FastForward (PrevPage pag v) = PrevPage_fn v pq) \<and>
   FastForward (NextPage (newPaginator (Some s) 10) v) =
     Return (Inr \<lparr>sel = Some (Offset 0 (Limit 10 s)), cursorColumn = [], cursorValue = v,
                  cursorCond = Some ['' >'' \<mapsto> v], cursorReverseOrder = False,
                  pageSize = 10, pageNumber = 0\<rparr>) \<and>
   FastForward (PrevPage (newPaginator (Some s) 10) v) =
     Return (Inr \<lparr>sel = Some (Offset 0 (Limit 10 s)), cursorColumn = [], cursorValue = v,
                  cursorCond = Some ['' <'' \<mapsto> v], cursorReverseOrder = True,
                  pageSize = 10, pageNumber = 0\<rparr>)"
proof (intro conjI impI)
  show "(NextPage_fn v pq = Return (Inl MissingCursorColumn)) =
     (cursorValue pq \<noteq> NilValue \<and> cursorColumn pq = [])"
    by (simp add: NextPage_fn_def)
  show "(PrevPage_fn v pq = Return (Inl MissingCursorColumn)) =
     (cursorValue pq \<noteq> NilValue \<and> cursorColumn pq = [])"
    by (simp add: PrevPage_fn_def)
  show "FastForward (NextPage (newPaginator (Some s) 10) v) =
     Return (Inr \<lparr>sel = Some (Offset 0 (Limit 10 s)), cursorColumn = [], cursorValue = v,
                  cursorCond = Some ['' >'' \<mapsto> v], cursorReverseOrder = False,
                  pageSize = 10, pageNumber = 0\<rparr>)"
    by (simp add: NextPage_resolves [OF FastForward_newPaginator] NextPage_fn_def Base_def)
  show "FastForward (PrevPage (newPaginator (Some s) 10) v) =
     Return (Inr \<lparr>sel = Some (Offset 0 (Limit 10 s)), cursorColumn = [], cursorValue = v,
                  cursorCond = Some ['' <'' \<mapsto> v], cursorReverseOrder = True,
                  pageSize = 10, pageNumber = 0\<rparr>)"
    by (simp add: PrevPage_resolves [OF FastForward_newPaginator] PrevPage_fn_def Base_def)
next
  assume "\<not> (cursorValue pq \<noteq> NilValue \<and> cursorColumn pq = [])"
  then show "NextPage_fn v pq =
        Return (Inr (pq\<lparr>cursorValue := v, cursorReverseOrder := False,
                         cursorCond := Some [cursorColumn pq @ '' >'' \<mapsto> v]\<rparr>))"
    and "PrevPage_fn v pq =
        Return (Inr (pq\<lparr>cursorValue := v, cursorReverseOrder := True,
                         cursorCond := Some [cursorColumn pq @ '' <'' \<mapsto> v]\<rparr>))"
    by (auto simp: NextPage_fn_def PrevPage_fn_def)
next
  assume "FastForward pag = Return (Inr pq)"
  then show "FastForward (NextPage pag v) = NextPage_fn v pq"
    and "FastForward (PrevPage pag v) = PrevPage_fn v pq"
    by (simp_all add: NextPage_resolves PrevPage_resolves)
qed

theorem cursor_navigation_check_witness:
  "FastForward (NextPage (NextPage (newPaginator (Some (Source 0)) 10) (IntValue 1)) (IntValue 2)) =
     Return (Inl MissingCursorColumn) \<and>
   FastForward (PrevPage (NextPage (newPaginator (Some (Source 0)) 10) (IntValue 1)) (IntValue 2)) =
     Return (Inl MissingCursorColumn) \<and>
   FastForward (NextPage (NextPage (newPaginator (Some (Source 0)) 10) NilValue) (IntValue 2)) =
     Return (Inr \<lparr>sel = Some (Offset 0 (Limit 10 (Source 0))), cursorColumn = [],
                  cursorValue = IntValue 2, cursorCond = Some ['' >'' \<mapsto> IntValue 2],
                  cursorReverseOrder = False, pageSize = 10, pageNumber = 0\<rparr>)"
proof -
  let ?pq1 = "\<lparr>sel = Some (Offset 0 (Limit 10 (Source 0))), cursorColumn = [],
                cursorValue = IntValue 1, cursorCond = Some ['' >'' \<mapsto> IntValue 1],
                cursorReverseOrder = False, pageSize = 10, pageNumber = 0\<rparr>"
  let ?pq0 = "\<lparr>sel = Some (Offset 0 (Limit 10 (Source 0))), cursorColumn = [],
                cursorValue = NilValue, cursorCond = Some ['' >'' \<mapsto> NilValue],
                cursorReverseOrder = False, pageSize = 10, pageNumber = 0\<rparr>"
  have f1: "FastForward (NextPage (newPaginator (Some (Source 0)) 10) (IntValue 1)) =
      Return (Inr ?pq1)"
    using cursor_navigation_check [of "IntValue 1" ?pq1 "newPaginator (Some (Source 0)) 10"
        "Source 0"]
    by simp
  have f0: "FastForward (NextPage (newPaginator (Some (Source 0)) 10) NilValue) =
      Return (Inr ?pq0)"
    using cursor_navigation_check [of NilValue ?pq0 "newPaginator (Some (Source 0)) 10"
        "Source 0"]
    by simp
  have staged: "cursorValue ?pq1 \<noteq> NilValue \<and> cursorColumn ?pq1 = []" by simp
  have unstaged: "\<not> (cursorValue ?pq0 \<noteq> NilValue \<and> cursorColumn ?pq0 = [])" by simp
  show ?thesis
    using f1 f0 staged unstaged
      cursor_navigation_check [of "IntValue 2" ?pq1
        "NextPage (newPaginator (Some (Source 0)) 10) (IntValue 1)" "Source 0"]
      cursor_navigation_check [of "IntValue 2" ?pq0
        "NextPage (newPaginator (Some (Source 0)) 10) NilValue" "Source 0"]
    by simp
qed

text \<open>
  C8, as the spec states it, at the accessor for the bound arguments: on a chain whose
  resolution fails, \<^verbatim>\<open>Arguments\<close> returns nil and drops the error; it neither returns it
  nor panics.
\<close>

theorem Arguments_drops_error:
  "buildWithCursor
     (NextPage (NextPage (newPaginator (Some (Source 0)) 10) (IntValue 1)) (IntValue 2)) =
     Return (Inl MissingCursorColumn) \<and>
   Arguments
     (NextPage (NextPage (newPaginator (Some (Source 0)) 10) (IntValue 1)) (IntValue 2)) =
     ReturnsNil"
  by (simp add: Arguments_def run_defs)


text \<open>
  C8, amended. Every fetch-family method first resolves the chain with cursor handling.
  When the resolution returns an error, the Selector's terminal operation is not invoked
  and: \<^verbatim>\<open>All\<close>, \<^verbatim>\<open>One\<close>, \<^verbatim>\<open>Query\<close>, \<^verbatim>\<open>QueryRow\<close>, \<^verbatim>\<open>Prepare\<close> and their context
  variants return that error; \<^verbatim>\<open>Iterator\<close> and its context variant return an iterator
  that holds it; \<^verbatim>\<open>String\<close> panics with it; \<^verbatim>\<open>Arguments\<close> returns nil and the error
  is lost. When the resolution succeeds the call is passed on to the resolved Selector, and
  a method passes a call on only then, to its own terminal operation.
\<close>

theorem fetch_resolves_first:
  "(buildWithCursor pag = Return (Inl err) \<longrightarrow>
      fetch t pag = (if t = TArguments then ReturnsNil else reports t err)) \<and>
   (buildWithCursor pag = Return (Inr pq) \<and> sel pq = Some s \<longrightarrow> fetch t pag = Delegates t s) \<and>
   (fetch t pag = Delegates t' s' \<longrightarrow>
      t' = t \<and> (\<exists>pq'. buildWithCursor pag = Return (Inr pq') \<and> sel pq' = Some s'))"
proof (intro conjI impI)
  assume "buildWithCursor pag = Return (Inl err)"
  then show "fetch t pag = (if t = TArguments then ReturnsNil else reports t err)"
    by (simp add: fetch_cases)
next
  assume "buildWithCursor pag = Return (Inr pq) \<and> sel pq = Some s"
  then show "fetch t pag = Delegates t s"
    by (simp add: fetch_cases delegate_def)
next
  assume a: "fetch t pag = Delegates t' s'"
  from fetch_delegates_only_resolved [OF a] show "t' = t" by (rule conjunct1)
  from fetch_delegates_only_resolved [OF a] show "\<exists>pq'. buildWithCursor pag = Return (Inr pq') \<and> sel pq' = Some s'"
    by (rule conjunct2)
qed

theorem fetch_resolves_first_witness:
  "All_pag (NextPage (NextPage (newPaginator (Some (Source 0)) 10) (IntValue 1)) (IntValue 2)) =
     ReturnsError MissingCursorColumn \<and>
   Iterator (NextPage (NextPage (newPaginator (Some (Source 0)) 10) (IntValue 1)) (IntValue 2)) =
     ReturnsErrorIterator MissingCursorColumn \<and>
   String_pag (NextPage (NextPage (newPaginator (Some (Source 0)) 10) (IntValue 1)) (IntValue 2)) =
     PanicsWith MissingCursorColumn \<and>
   All_pag (newPaginator (Some (Source 0)) 10) = Delegates TAll (Offset 0 (Limit 10 (Source 0)))"
proof -
  let ?bad = "NextPage (NextPage (newPaginator (Some (Source 0)) 10) (IntValue 1)) (IntValue 2)"
  let ?good = "newPaginator (Some (Source 0)) 10"
  let ?pq = "Base\<lparr>pageSize := 10, sel := Some (Offset 0 (Limit 10 (Source 0)))\<rparr>"
  have bad: "buildWithCursor ?bad = Return (Inl MissingCursorColumn)"
    by (simp add: run_defs)
  have good: "buildWithCursor ?good = Return (Inr ?pq) \<and> sel ?pq = Some (Offset 0 (Limit 10 (Source 0)))"
    by (simp add: run_defs)
  have w1: "fetch TAll ?bad = ReturnsError MissingCursorColumn"
    using bad fetch_resolves_first [of ?bad MissingCursorColumn TAll]
    by (simp add: reports_def)
  have w2: "fetch TIterator ?bad = ReturnsErrorIterator MissingCursorColumn"
    using bad fetch_resolves_first [of ?bad MissingCursorColumn TIterator]
    by (simp add: reports_def)
  have w3: "fetch TString ?bad = PanicsWith MissingCursorColumn"
    using bad fetch_resolves_first [of ?bad MissingCursorColumn TString]
    by (simp add: reports_def)
  have w4: "fetch TAll ?good = Delegates TAll (Offset 0 (Limit 10 (Source 0)))"
    using good
      fetch_resolves_first [of ?good MissingCursorColumn TAll ?pq "Offset 0 (Limit 10 (Source 0))"]
    by blast
  from w1 w2 w3 w4 show ?thesis by simp
qed






end
